theory Spec2Isabelle
  imports Complex_Main "HOL-Library.Word" "HOL-Library.Signed_Division" "HOL-Library.Multiset"
begin

unbundle bit_operations_syntax

section \<open>Numeric model\<close>

text \<open>
  The C sources use three numeric types.

  \<^verbatim>\<open>int32_t\<close> (\<^verbatim>\<open>fixed_t\<close>) is a 32-bit word: its arithmetic wraps, as it does in the compiled
  program (C leaves signed overflow undefined).  The \<^verbatim>\<open>int\<close> counters and loop variables of
  the sweeps (\<^verbatim>\<open>pixels\<close>, \<^verbatim>\<open>drawn\<close>, \<^verbatim>\<open>steps\<close>, and \<^verbatim>\<open>x\<close>, \<^verbatim>\<open>y\<close>, \<^verbatim>\<open>d\<close> of Bresenham's loop) are 32-bit
  words as well.  Coordinates handed to the plot operations, and the parameters \<^verbatim>\<open>cx\<close>, \<^verbatim>\<open>cy\<close>,
  \<^verbatim>\<open>r\<close>, are mathematical integers.

  \<^verbatim>\<open>double\<close> is an abstract type \<open>'d\<close>.  The operations the sources apply to doubles are the
  fields of a record \<open>'d arith\<close> that every function computing with doubles takes as its
  first argument.  Nothing is assumed about these operations: what is proved holds for
  every arithmetic, whatever its rounding, its \<^verbatim>\<open>cos\<close> and \<^verbatim>\<open>sin\<close>, and whatever its casts do
  with a value out of range.
\<close>

type_synonym fixed_t = "32 word"

type_synonym cint = "32 word"

definition FP_BITS :: nat where
  "FP_BITS = 16"

definition FP_ONE :: int where
  "FP_ONE = push_bit FP_BITS 1"

definition FP_HALF :: int where
  "FP_HALF = push_bit (FP_BITS - 1) 1"

text \<open>
  The operations on doubles: \<open>d_lit q\<close> is the double a decimal literal \<open>q\<close> denotes,
  \<open>d_of_int\<close> the conversion of an \<^verbatim>\<open>int\<close>, \<open>d_add\<close>, \<open>d_sub\<close>, \<open>d_mul\<close>, \<open>d_div\<close> the four
  operations, \<open>d_le\<close> the comparison \<^verbatim>\<open><=\<close>, \<open>d_cos\<close>, \<open>d_sin\<close> and \<open>d_round\<close> the library functions
  \<^verbatim>\<open>cos\<close>, \<^verbatim>\<open>sin\<close> and \<^verbatim>\<open>round\<close>, and \<open>d_to_i32\<close> the cast to a 32-bit integer (\<^verbatim>\<open>(int)\<close>, \<^verbatim>\<open>(fixed_t)\<close>).
\<close>

record 'd arith =
  d_lit :: "real \<Rightarrow> 'd"
  d_of_int :: "int \<Rightarrow> 'd"
  d_add :: "'d \<Rightarrow> 'd \<Rightarrow> 'd"
  d_sub :: "'d \<Rightarrow> 'd \<Rightarrow> 'd"
  d_mul :: "'d \<Rightarrow> 'd \<Rightarrow> 'd"
  d_div :: "'d \<Rightarrow> 'd \<Rightarrow> 'd"
  d_le :: "'d \<Rightarrow> 'd \<Rightarrow> bool"
  d_cos :: "'d \<Rightarrow> 'd"
  d_sin :: "'d \<Rightarrow> 'd"
  d_round :: "'d \<Rightarrow> 'd"
  d_to_i32 :: "'d \<Rightarrow> 32 word"

text \<open>\<^verbatim>\<open>to_fixed\<close>: \<^verbatim>\<open>(fixed_t)(d * FP_ONE + (d >= 0 ? 0.5 : -0.5))\<close>.\<close>

definition to_fixed :: "'d arith \<Rightarrow> 'd \<Rightarrow> fixed_t" where
  "to_fixed ops d =
     d_to_i32 ops (d_add ops (d_mul ops d (d_of_int ops FP_ONE))
                             (if d_le ops (d_of_int ops 0) d then d_lit ops 0.5 else d_lit ops (- 0.5)))"

text \<open>\<^verbatim>\<open>(int)round(d)\<close>.\<close>

definition round_int :: "'d arith \<Rightarrow> 'd \<Rightarrow> int" where
  "round_int ops d = sint (d_to_i32 ops (d_round ops d))"

text \<open>\<^verbatim>\<open>fixed_to_int\<close>: \<^verbatim>\<open>(f + FP_HALF) >> FP_BITS\<close>, the shift being arithmetic.\<close>

definition fixed_to_int :: "fixed_t \<Rightarrow> int" where
  "fixed_to_int f = sint (signed_drop_bit FP_BITS (f + word_of_int FP_HALF))"

text \<open>\<^verbatim>\<open>fp_mul\<close>: widen to 64 bits, multiply, shift right arithmetically, narrow to 32 bits.\<close>

definition fp_mul :: "fixed_t \<Rightarrow> fixed_t \<Rightarrow> fixed_t" where
  "fp_mul a b = ucast (signed_drop_bit FP_BITS ((scast a :: 64 word) * (scast b :: 64 word)))"

section \<open>Framebuffer\<close>

text \<open>
  \<^verbatim>\<open>Framebuffer\<close> of \<^verbatim>\<open>df2_circle_benchmark.c\<close> and \<^verbatim>\<open>FB\<close> of \<^verbatim>\<open>fair_comparison.c\<close> are the same
  struct up to field names (\<^verbatim>\<open>w\<close>, \<^verbatim>\<open>h\<close>, \<^verbatim>\<open>px\<close>); one record models both.  The byte array
  is a list of \<^verbatim>\<open>uint8_t\<close>.
\<close>

record Framebuffer =
  width :: int
  height :: int
  pixels :: "8 word list"

text \<open>What \<^verbatim>\<open>fb_create\<close> and \<^verbatim>\<open>mkfb\<close> establish: the array has \<open>width * height\<close> bytes.\<close>

definition fb_wf :: "Framebuffer \<Rightarrow> bool" where
  "fb_wf fb = (0 \<le> width fb \<and> 0 \<le> height fb \<and> length (pixels fb) = nat (width fb * height fb))"

definition fb_create :: "int \<Rightarrow> int \<Rightarrow> Framebuffer" where
  "fb_create w h = \<lparr>width = w, height = h, pixels = replicate (nat (w * h)) 0\<rparr>"

definition fb_clear :: "Framebuffer \<Rightarrow> Framebuffer" where
  "fb_clear fb = fb\<lparr>pixels := replicate (nat (width fb * height fb)) 0 @ drop (nat (width fb * height fb)) (pixels fb)\<rparr>"

text \<open>
  \<^verbatim>\<open>fb_plot\<close>: translate by half the extent (C division truncates), clip, store 1.
  The store is a list update; on a surface that is not \<^const>\<open>fb_wf\<close> the C code would write
  outside the array.
\<close>

definition fb_plot :: "Framebuffer \<Rightarrow> int \<Rightarrow> int \<Rightarrow> Framebuffer" where
  "fb_plot fb x0 y0 =
     (let x = x0 + width fb sdiv 2;
          y = y0 + height fb sdiv 2
      in if 0 \<le> x \<and> x < width fb \<and> 0 \<le> y \<and> y < height fb
         then fb\<lparr>pixels := (pixels fb)[nat (y * width fb + x) := 1]\<rparr>
         else fb)"

text \<open>\<^verbatim>\<open>plot\<close> of \<^verbatim>\<open>fair_comparison.c\<close> has the same body.\<close>

definition plot :: "Framebuffer \<Rightarrow> int \<Rightarrow> int \<Rightarrow> Framebuffer" where
  "plot f x0 y0 =
     (let x = x0 + width f sdiv 2;
          y = y0 + height f sdiv 2
      in if 0 \<le> x \<and> x < width f \<and> 0 \<le> y \<and> y < height f
         then f\<lparr>pixels := (pixels f)[nat (y * width f + x) := 1]\<rparr>
         else f)"

text \<open>The 8-way symmetric plot: eight calls, in the order of the source.\<close>

definition fb_plot8 :: "Framebuffer \<Rightarrow> int \<Rightarrow> int \<Rightarrow> int \<Rightarrow> int \<Rightarrow> Framebuffer" where
  "fb_plot8 fb cx cy x y =
     (let fb = fb_plot fb (cx + x) (cy + y);
          fb = fb_plot fb (cx - x) (cy + y);
          fb = fb_plot fb (cx + x) (cy - y);
          fb = fb_plot fb (cx - x) (cy - y);
          fb = fb_plot fb (cx + y) (cy + x);
          fb = fb_plot fb (cx - y) (cy + x);
          fb = fb_plot fb (cx + y) (cy - x);
          fb = fb_plot fb (cx - y) (cy - x)
      in fb)"

definition plot8 :: "Framebuffer \<Rightarrow> int \<Rightarrow> int \<Rightarrow> Framebuffer" where
  "plot8 f x y =
     (let f = plot f x y;
          f = plot f (- x) y;
          f = plot f x (- y);
          f = plot f (- x) (- y);
          f = plot f y x;
          f = plot f (- y) x;
          f = plot f y (- x);
          f = plot f (- y) (- x)
      in f)"

text \<open>The arguments of the eight \<^verbatim>\<open>fb_plot\<close> calls of \<^verbatim>\<open>fb_plot8\<close>, in call order.\<close>

definition fb_plot8_calls :: "int \<Rightarrow> int \<Rightarrow> int \<Rightarrow> int \<Rightarrow> (int \<times> int) list" where
  "fb_plot8_calls cx cy x y =
     [(cx + x, cy + y), (cx - x, cy + y), (cx + x, cy - y), (cx - x, cy - y),
      (cx + y, cy + x), (cx - y, cy + x), (cx + y, cy - x), (cx - y, cy - x)]"

text \<open>The arguments of the eight \<^verbatim>\<open>plot\<close> calls of \<^verbatim>\<open>plot8\<close>, in call order.\<close>

definition plot8_calls :: "int \<Rightarrow> int \<Rightarrow> (int \<times> int) list" where
  "plot8_calls x y =
     [(x, y), (- x, y), (x, - y), (- x, - y), (y, x), (- y, x), (y, - x), (- y, - x)]"

text \<open>
  The octant expander as the specification words it: all four sign combinations of each
  of the ordered pairs \<open>(x, y)\<close> and \<open>(y, x)\<close>.
\<close>

definition symmetric8 :: "int \<Rightarrow> int \<Rightarrow> (int \<times> int) list" where
  "symmetric8 x y = concat (map (\<lambda>(a, b). [(a, b), (- a, b), (a, - b), (- a, - b)]) [(x, y), (y, x)])"

text \<open>
  \<^verbatim>\<open>fb_count_pixels\<close> and \<^verbatim>\<open>count_px\<close>: the sum of the bytes, accumulated in an \<^verbatim>\<open>int\<close>.  The
  loop bound \<^verbatim>\<open>width * height\<close> is taken without overflow (it is the size of the array).
\<close>

definition fb_count_pixels :: "Framebuffer \<Rightarrow> cint" where
  "fb_count_pixels fb = word_of_int (\<Sum>b\<leftarrow>take (nat (width fb * height fb)) (pixels fb). uint b)"

definition count_px :: "Framebuffer \<Rightarrow> cint" where
  "count_px f = word_of_int (\<Sum>b\<leftarrow>take (nat (width f * height f)) (pixels f). uint b)"



section \<open>Octant sweeps\<close>

text \<open>
  The single-octant sweeps share one loop:
  \<^verbatim>\<open>while (1) { sample (x, y); if (y > x) break; plot and count; advance the oscillator; }\<close>
  It may run forever, so the loop is a partial function: \<open>None\<close> is "does not return".
  \<open>sample\<close> reads the integer sample off the oscillator state, \<open>step\<close> is the recurrence,
  \<open>body\<close> is what the loop does with a sample that is kept (plot it, count it) and \<open>acc\<close> is
  what \<open>body\<close> updates: the surface, with the \<^verbatim>\<open>pixels\<close> counter where the function has one.
\<close>

partial_function (option) octant_loop ::
  "('s \<Rightarrow> int \<times> int) \<Rightarrow> ('s \<Rightarrow> 's) \<Rightarrow> ('a \<Rightarrow> int \<Rightarrow> int \<Rightarrow> 'a) \<Rightarrow> 'a \<Rightarrow> 's \<Rightarrow> 'a option" where
  "octant_loop sample step body acc st =
     (case sample st of (x, y) \<Rightarrow>
        if y > x then Some acc
        else octant_loop sample step body (body acc x y) (step st))"

text \<open>
  The loop body of the sweeps of \<^verbatim>\<open>df2_circle_benchmark.c\<close>: \<^verbatim>\<open>fb_plot8(...); pixels += 8;\<close>
  (the counter \<^verbatim>\<open>pixels\<close>, a 32-bit \<^verbatim>\<open>int\<close>, is \<open>n\<close> here, \<open>pixels\<close> being the record field).
\<close>

definition plot8_count :: "int \<Rightarrow> int \<Rightarrow> Framebuffer \<times> cint \<Rightarrow> int \<Rightarrow> int \<Rightarrow> Framebuffer \<times> cint" where
  "plot8_count cx cy acc x y = (case acc of (fb, n) \<Rightarrow> (fb_plot8 fb cx cy x y, n + 8))"

text \<open>
  The DF2 update \<^verbatim>\<open>w2 = coeff * w1 - w0; w0 = w1; w1 = w2;\<close> on the state \<open>(w0, w1)\<close>, with
  the multiplication and the subtraction of the number format as parameters: those of
  doubles in the floating-point sweep, \<^verbatim>\<open>fp_mul\<close> and the 32-bit subtraction in Q16.16.
\<close>

definition df2_step :: "('w \<Rightarrow> 'w \<Rightarrow> 'w) \<Rightarrow> ('w \<Rightarrow> 'w \<Rightarrow> 'w) \<Rightarrow> 'w \<Rightarrow> 'w \<times> 'w \<Rightarrow> 'w \<times> 'w" where
  "df2_step mul sub coeff s = (case s of (w0, w1) \<Rightarrow> (w1, sub (mul coeff w1) w0))"

text \<open>Algorithm 1: DF2, floating point.  The oscillator state is \<open>(w0, w1) = (w[n-2], w[n-1])\<close>.\<close>

definition circle_df2_float_sym8 ::
  "'d arith \<Rightarrow> Framebuffer \<Rightarrow> int \<Rightarrow> int \<Rightarrow> int \<Rightarrow> (Framebuffer \<times> cint) option" where
  "circle_df2_float_sym8 ops fb cx cy r =
     (if r \<le> 0 then Some (fb, 0)
      else
        let omega = d_div ops (d_lit ops 1.0) (d_mul ops (d_lit ops 1.5) (d_of_int ops r));
            coeff = d_mul ops (d_lit ops 2.0) (d_cos ops omega);
            scale = d_div ops (d_lit ops (- 1.0)) omega;
            w0 = d_mul ops (d_of_int ops r) (d_cos ops omega);
            w1 = d_of_int ops r
        in octant_loop
             (\<lambda>(w0, w1). (round_int ops w1, round_int ops (d_mul ops (d_sub ops w1 w0) scale)))
             (df2_step (d_mul ops) (d_sub ops) coeff)
             (plot8_count cx cy) (fb, 0) (w0, w1))"

text \<open>Algorithm 2: DF2, Q16.16.\<close>

definition circle_df2_fixed_sym8 ::
  "'d arith \<Rightarrow> Framebuffer \<Rightarrow> int \<Rightarrow> int \<Rightarrow> int \<Rightarrow> (Framebuffer \<times> cint) option" where
  "circle_df2_fixed_sym8 ops fb cx cy r =
     (if r \<le> 0 then Some (fb, 0)
      else
        let omega = d_div ops (d_lit ops 1.0) (d_mul ops (d_lit ops 1.5) (d_of_int ops r));
            coeff = to_fixed ops (d_mul ops (d_lit ops 2.0) (d_cos ops omega));
            scale = to_fixed ops (d_div ops (d_lit ops (- 1.0)) omega);
            w0 = to_fixed ops (d_mul ops (d_of_int ops r) (d_cos ops omega));
            w1 = to_fixed ops (d_of_int ops r)
        in octant_loop
             (\<lambda>(w0, w1). (fixed_to_int w1, fixed_to_int (fp_mul (w1 - w0) scale)))
             (df2_step fp_mul (-) coeff)
             (plot8_count cx cy) (fb, 0) (w0, w1))"

text \<open>Algorithm 3: coupled form (rotation matrix), floating point.  The state is \<open>(x, y)\<close>.\<close>

definition circle_coupled_float_sym8 ::
  "'d arith \<Rightarrow> Framebuffer \<Rightarrow> int \<Rightarrow> int \<Rightarrow> int \<Rightarrow> (Framebuffer \<times> cint) option" where
  "circle_coupled_float_sym8 ops fb cx cy r =
     (if r \<le> 0 then Some (fb, 0)
      else
        let omega = d_div ops (d_lit ops 1.0) (d_mul ops (d_lit ops 1.5) (d_of_int ops r));
            c = d_cos ops omega;
            s = d_sin ops omega;
            x = d_of_int ops r;
            y = d_of_int ops 0
        in octant_loop
             (\<lambda>(x, y). (round_int ops x, round_int ops y))
             (\<lambda>(x, y). (d_sub ops (d_mul ops x c) (d_mul ops y s),
                         d_add ops (d_mul ops x s) (d_mul ops y c)))
             (plot8_count cx cy) (fb, 0) (x, y))"

text \<open>Algorithm 4: coupled form, Q16.16.\<close>

definition circle_coupled_fixed_sym8 ::
  "'d arith \<Rightarrow> Framebuffer \<Rightarrow> int \<Rightarrow> int \<Rightarrow> int \<Rightarrow> (Framebuffer \<times> cint) option" where
  "circle_coupled_fixed_sym8 ops fb cx cy r =
     (if r \<le> 0 then Some (fb, 0)
      else
        let omega = d_div ops (d_lit ops 1.0) (d_mul ops (d_lit ops 1.5) (d_of_int ops r));
            c = to_fixed ops (d_cos ops omega);
            s = to_fixed ops (d_sin ops omega);
            x = to_fixed ops (d_of_int ops r);
            y = 0
        in octant_loop
             (\<lambda>(x, y). (fixed_to_int x, fixed_to_int y))
             (\<lambda>(x, y). (fp_mul x c - fp_mul y s, fp_mul x s + fp_mul y c))
             (plot8_count cx cy) (fb, 0) (x, y))"

text \<open>\<^verbatim>\<open>df2_sym8\<close> of \<^verbatim>\<open>fair_comparison.c\<close>: no counter; it returns \<^verbatim>\<open>count_px(fb)\<close>.\<close>

definition df2_sym8 :: "'d arith \<Rightarrow> Framebuffer \<Rightarrow> int \<Rightarrow> (Framebuffer \<times> cint) option" where
  "df2_sym8 ops fb r =
     (if r \<le> 0 then Some (fb, 0)
      else
        let omega = d_div ops (d_lit ops 1.0) (d_mul ops (d_lit ops 1.5) (d_of_int ops r));
            coeff = to_fixed ops (d_mul ops (d_lit ops 2.0) (d_cos ops omega));
            scale = to_fixed ops (d_div ops (d_lit ops (- 1.0)) omega);
            w0 = to_fixed ops (d_mul ops (d_of_int ops r) (d_cos ops omega));
            w1 = to_fixed ops (d_of_int ops r)
        in case octant_loop
               (\<lambda>(w0, w1). (fixed_to_int w1, fixed_to_int (fp_mul (w1 - w0) scale)))
               (df2_step fp_mul (-) coeff)
               plot8 fb (w0, w1)
           of None \<Rightarrow> None | Some fb' \<Rightarrow> Some (fb', count_px fb'))"

section \<open>Bresenham's midpoint circle\<close>

text \<open>
  The loop \<^verbatim>\<open>while (x <= y) { body; if (d < 0) d += 4*x + 6; else { d += 4*(x-y) + 10; y--; } x++; }\<close>
  of \<^verbatim>\<open>circle_bresenham\<close>, \<^verbatim>\<open>bres_sym8\<close> and the eight octants of \<^verbatim>\<open>bres_full\<close>.  \<^verbatim>\<open>x\<close>, \<^verbatim>\<open>y\<close>
  and \<^verbatim>\<open>d\<close> are 32-bit \<^verbatim>\<open>int\<close>s, compared as signed numbers.  \<open>bres_step\<close> is what one
  iteration does to \<open>(x, y, d)\<close>.
\<close>

definition bres_step :: "cint \<times> cint \<times> cint \<Rightarrow> cint \<times> cint \<times> cint" where
  "bres_step s =
     (case s of (x, y, d) \<Rightarrow>
        if d <s 0 then (x + 1, y, d + 4 * x + 6)
        else (x + 1, y - 1, d + 4 * (x - y) + 10))"

partial_function (option) bresenham_loop ::
  "('a \<Rightarrow> int \<Rightarrow> int \<Rightarrow> 'a) \<Rightarrow> 'a \<Rightarrow> cint \<times> cint \<times> cint \<Rightarrow> 'a option" where
  "bresenham_loop body acc s =
     (case s of (x, y, d) \<Rightarrow>
        if x \<le>s y then bresenham_loop body (body acc (sint x) (sint y)) (bres_step s)
        else Some acc)"

text \<open>The initial state \<^verbatim>\<open>x = 0, y = r, d = 3 - 2 * r\<close>.\<close>

definition bres_init :: "int \<Rightarrow> cint \<times> cint \<times> cint" where
  "bres_init r = (0, word_of_int r, 3 - 2 * word_of_int r)"

definition circle_bresenham :: "Framebuffer \<Rightarrow> int \<Rightarrow> int \<Rightarrow> int \<Rightarrow> (Framebuffer \<times> cint) option" where
  "circle_bresenham fb cx cy r =
     (if r \<le> 0 then Some (fb, 0)
      else bresenham_loop (plot8_count cx cy) (fb, 0) (bres_init r))"

definition bres_sym8 :: "Framebuffer \<Rightarrow> int \<Rightarrow> (Framebuffer \<times> cint) option" where
  "bres_sym8 fb r =
     (if r \<le> 0 then Some (fb, 0)
      else case bresenham_loop plot8 fb (bres_init r) of
             None \<Rightarrow> None | Some fb' \<Rightarrow> Some (fb', count_px fb'))"

text \<open>\<^verbatim>\<open>bres_full\<close>: the loop eight times, one octant each, then \<^verbatim>\<open>count_px(fb)\<close>.\<close>

definition bres_full :: "Framebuffer \<Rightarrow> int \<Rightarrow> (Framebuffer \<times> cint) option" where
  "bres_full fb r =
     (if r \<le> 0 then Some (fb, 0)
      else
        Option.bind (bresenham_loop (\<lambda>f x y. plot f x y) fb (bres_init r)) (\<lambda>fb.
        Option.bind (bresenham_loop (\<lambda>f x y. plot f y x) fb (bres_init r)) (\<lambda>fb.
        Option.bind (bresenham_loop (\<lambda>f x y. plot f y (- x)) fb (bres_init r)) (\<lambda>fb.
        Option.bind (bresenham_loop (\<lambda>f x y. plot f x (- y)) fb (bres_init r)) (\<lambda>fb.
        Option.bind (bresenham_loop (\<lambda>f x y. plot f (- x) (- y)) fb (bres_init r)) (\<lambda>fb.
        Option.bind (bresenham_loop (\<lambda>f x y. plot f (- y) (- x)) fb (bres_init r)) (\<lambda>fb.
        Option.bind (bresenham_loop (\<lambda>f x y. plot f (- y) x) fb (bres_init r)) (\<lambda>fb.
        Option.bind (bresenham_loop (\<lambda>f x y. plot f (- x) y) fb (bres_init r)) (\<lambda>fb.
        Some (fb, count_px fb))))))))))"

section \<open>Full-circle sweep\<close>

text \<open>
  One iteration of the \<^verbatim>\<open>for\<close> loop of \<^verbatim>\<open>df2_full\<close>: sample, clip, set the pixel and count
  it when it was clear, advance the oscillator.  The state is \<open>(fb, w0, w1, drawn)\<close>.
\<close>

definition df2_full_step ::
  "fixed_t \<Rightarrow> fixed_t \<Rightarrow> Framebuffer \<times> fixed_t \<times> fixed_t \<times> cint \<Rightarrow> Framebuffer \<times> fixed_t \<times> fixed_t \<times> cint" where
  "df2_full_step coeff scale s =
     (case s of (fb, w0, w1, drawn) \<Rightarrow>
        let x = fixed_to_int w1;
            y = fixed_to_int (fp_mul (w1 - w0) scale);
            px = x + width fb sdiv 2;
            py = y + height fb sdiv 2;
            (fb, drawn) =
              (if 0 \<le> px \<and> px < width fb \<and> 0 \<le> py \<and> py < height fb
               then if pixels fb ! nat (py * width fb + px) = 0
                    then (fb\<lparr>pixels := (pixels fb)[nat (py * width fb + px) := 1]\<rparr>, drawn + 1)
                    else (fb, drawn)
               else (fb, drawn));
            w2 = fp_mul coeff w1 - w0
        in (fb, w1, w2, drawn))"

text \<open>\<^verbatim>\<open>for (int i = 0; i < steps; i++)\<close>: the first argument counts the iterations left.\<close>

fun df2_full_loop ::
  "nat \<Rightarrow> fixed_t \<Rightarrow> fixed_t \<Rightarrow> Framebuffer \<times> fixed_t \<times> fixed_t \<times> cint \<Rightarrow> Framebuffer \<times> fixed_t \<times> fixed_t \<times> cint" where
  "df2_full_loop 0 coeff scale s = s"
| "df2_full_loop (Suc n) coeff scale s = df2_full_loop n coeff scale (df2_full_step coeff scale s)"

text \<open>The literal \<^verbatim>\<open>M_PI\<close> of \<^verbatim>\<open>math.h\<close>.\<close>

definition M_PI :: real where
  "M_PI = 3.14159265358979323846"

text \<open>
  \<^verbatim>\<open>df2_full\<close>.  The step count is \<^verbatim>\<open>(int)(2.0 * M_PI / omega) + 10\<close>; the loop runs
  \<open>steps\<close> times when \<open>steps\<close> is positive and not at all otherwise.
\<close>

definition df2_full :: "'d arith \<Rightarrow> Framebuffer \<Rightarrow> int \<Rightarrow> Framebuffer \<times> cint" where
  "df2_full ops fb r =
     (if r \<le> 0 then (fb, 0)
      else
        let omega = d_div ops (d_lit ops 1.0) (d_mul ops (d_lit ops 1.5) (d_of_int ops r));
            coeff = to_fixed ops (d_mul ops (d_lit ops 2.0) (d_cos ops omega));
            scale = to_fixed ops (d_div ops (d_lit ops (- 1.0)) omega);
            w0 = to_fixed ops (d_mul ops (d_of_int ops r) (d_cos ops omega));
            w1 = to_fixed ops (d_of_int ops r);
            steps = d_to_i32 ops (d_div ops (d_mul ops (d_lit ops 2.0) (d_lit ops M_PI)) omega) + 10
        in case df2_full_loop (nat (sint steps)) coeff scale (fb, w0, w1, 0) of
             (fb', w0', w1', drawn) \<Rightarrow> (fb', drawn))"

section \<open>Auxiliary notions\<close>

text \<open>Plotting a list of points one after the other.\<close>

definition plot_all :: "Framebuffer \<Rightarrow> (int \<times> int) list \<Rightarrow> Framebuffer" where
  "plot_all fb ps = foldl (\<lambda>f p. fb_plot f (fst p) (snd p)) fb ps"

text \<open>The clipping test of \<^verbatim>\<open>fb_plot\<close> and the array index it writes.\<close>

definition fb_in_bounds :: "Framebuffer \<Rightarrow> int \<Rightarrow> int \<Rightarrow> bool" where
  "fb_in_bounds fb x y =
     (0 \<le> x + width fb sdiv 2 \<and> x + width fb sdiv 2 < width fb
      \<and> 0 \<le> y + height fb sdiv 2 \<and> y + height fb sdiv 2 < height fb)"

definition fb_index :: "Framebuffer \<Rightarrow> int \<Rightarrow> int \<Rightarrow> nat" where
  "fb_index fb x y = nat ((y + height fb sdiv 2) * width fb + (x + width fb sdiv 2))"

text \<open>The termination test of the octant loop: the sample has left the first octant.\<close>

definition crossed :: "int \<times> int \<Rightarrow> bool" where
  "crossed p = (snd p > fst p)"

text \<open>The accumulator of the octant loop after \<open>k\<close> samples were kept.\<close>

fun octant_run :: "('s \<Rightarrow> int \<times> int) \<Rightarrow> ('s \<Rightarrow> 's) \<Rightarrow> ('a \<Rightarrow> int \<Rightarrow> int \<Rightarrow> 'a) \<Rightarrow> 'a \<Rightarrow> 's \<Rightarrow> nat \<Rightarrow> 'a" where
  "octant_run sample step body acc st 0 = acc"
| "octant_run sample step body acc st (Suc k) =
     octant_run sample step body (body acc (fst (sample st)) (snd (sample st))) (step st) k"

text \<open>
  \<open>first_at P k\<close>: \<open>k\<close> is the first index at which \<open>P\<close> holds.  \<open>first_crossing s k\<close>: in the
  sequence \<open>s\<close> of samples, sample \<open>k\<close> is the first with \<open>y > x\<close>.
\<close>

definition first_at :: "(nat \<Rightarrow> bool) \<Rightarrow> nat \<Rightarrow> bool" where
  "first_at P k = (list_all (\<lambda>i. \<not> P i) [0..<k] \<and> P k)"

definition first_crossing :: "(nat \<Rightarrow> int \<times> int) \<Rightarrow> nat \<Rightarrow> bool" where
  "first_crossing s k = first_at (\<lambda>i. crossed (s i)) k"

text \<open>
  The surface after the samples \<open>s 0, \<dots>, s (k - 1)\<close> went through the octant expander, one
  after the other: \<open>k\<close> calls of \<^verbatim>\<open>fb_plot8\<close> (of \<^verbatim>\<open>plot8\<close> when the center is the origin).
\<close>

definition plot8_samples :: "Framebuffer \<Rightarrow> int \<Rightarrow> int \<Rightarrow> (nat \<Rightarrow> int \<times> int) \<Rightarrow> nat \<Rightarrow> Framebuffer" where
  "plot8_samples fb cx cy s k = foldl (\<lambda>f i. fb_plot8 f cx cy (fst (s i)) (snd (s i))) fb [0..<k]"

text \<open>The number of set pixels, and surfaces whose bytes are all 0 or 1.\<close>

definition num_set_pixels :: "Framebuffer \<Rightarrow> nat" where
  "num_set_pixels fb = length (filter (\<lambda>b. b = 1) (pixels fb))"

definition fb_binary :: "Framebuffer \<Rightarrow> bool" where
  "fb_binary fb = list_all (\<lambda>b. b = 0 \<or> b = 1) (pixels fb)"

text \<open>
  The DF2 oscillator as the specification words it: \<open>\<omega> = 1 / (1.5 r)\<close>, \<open>coeff = 2 cos \<omega>\<close>,
  \<open>scale = - 1 / \<omega>\<close>, the sequence \<open>w\<close> with \<open>w[n] = coeff \<cdot> w[n-1] - w[n-2]\<close> started at
  \<open>(w[n-1], w[n-2]) = (r, r cos \<omega>)\<close> (index 0 is the initial \<open>w[n-2]\<close>), and the sample \<open>n\<close>:
  \<open>x = round (w[n-1])\<close>, \<open>y = round ((w[n-1] - w[n-2]) \<cdot> scale)\<close>.  Every operation is the one
  of the arithmetic \<open>ops\<close>.  \<open>df2_wq\<close> and \<open>df2_fixed_sample\<close> are the same in Q16.16, the
  coefficients and the initial state converted by \<^verbatim>\<open>to_fixed\<close>.
\<close>

definition df2_omega :: "'d arith \<Rightarrow> int \<Rightarrow> 'd" where
  "df2_omega ops r = d_div ops (d_lit ops 1) (d_mul ops (d_lit ops 1.5) (d_of_int ops r))"

definition df2_coeff :: "'d arith \<Rightarrow> int \<Rightarrow> 'd" where
  "df2_coeff ops r = d_mul ops (d_lit ops 2) (d_cos ops (df2_omega ops r))"

definition df2_scale :: "'d arith \<Rightarrow> int \<Rightarrow> 'd" where
  "df2_scale ops r = d_div ops (d_lit ops (- 1)) (df2_omega ops r)"

fun df2_w :: "'d arith \<Rightarrow> int \<Rightarrow> nat \<Rightarrow> 'd" where
  "df2_w ops r 0 = d_mul ops (d_of_int ops r) (d_cos ops (df2_omega ops r))"
| "df2_w ops r (Suc 0) = d_of_int ops r"
| "df2_w ops r (Suc (Suc n)) = d_sub ops (d_mul ops (df2_coeff ops r) (df2_w ops r (Suc n))) (df2_w ops r n)"

definition df2_float_sample :: "'d arith \<Rightarrow> int \<Rightarrow> nat \<Rightarrow> int \<times> int" where
  "df2_float_sample ops r n =
     (round_int ops (df2_w ops r (Suc n)),
      round_int ops (d_mul ops (d_sub ops (df2_w ops r (Suc n)) (df2_w ops r n)) (df2_scale ops r)))"

fun df2_wq :: "'d arith \<Rightarrow> int \<Rightarrow> nat \<Rightarrow> fixed_t" where
  "df2_wq ops r 0 = to_fixed ops (d_mul ops (d_of_int ops r) (d_cos ops (df2_omega ops r)))"
| "df2_wq ops r (Suc 0) = to_fixed ops (d_of_int ops r)"
| "df2_wq ops r (Suc (Suc n)) = fp_mul (to_fixed ops (df2_coeff ops r)) (df2_wq ops r (Suc n)) - df2_wq ops r n"

definition df2_fixed_sample :: "'d arith \<Rightarrow> int \<Rightarrow> nat \<Rightarrow> int \<times> int" where
  "df2_fixed_sample ops r n =
     (fixed_to_int (df2_wq ops r (Suc n)),
      fixed_to_int (fp_mul (df2_wq ops r (Suc n) - df2_wq ops r n) (to_fixed ops (df2_scale ops r))))"












text \<open>A returned count that is the number of set pixels of the returned surface.\<close>

definition counts_set_pixels :: "Framebuffer \<times> cint \<Rightarrow> bool" where
  "counts_set_pixels a = (sint (snd a) = int (num_set_pixels (fst a)))"

text \<open>
  One arithmetic to run the sweeps in: the real numbers, every operation exact, \<^verbatim>\<open>round\<close>
  to nearest with halves away from zero, the cast truncating towards zero (and wrapping
  out of range).
\<close>

definition c_trunc :: "real \<Rightarrow> int" where
  "c_trunc d = (if 0 \<le> d then \<lfloor>d\<rfloor> else \<lceil>d\<rceil>)"

definition c_round :: "real \<Rightarrow> int" where
  "c_round d = (if 0 \<le> d then \<lfloor>d + 1 / 2\<rfloor> else \<lceil>d - 1 / 2\<rceil>)"

definition exact_arith :: "real arith" where
  "exact_arith =
     \<lparr>d_lit = (\<lambda>q. q), d_of_int = real_of_int,
      d_add = (+), d_sub = (-), d_mul = (*), d_div = (/), d_le = (\<le>),
      d_cos = cos, d_sin = sin,
      d_round = (\<lambda>d. real_of_int (c_round d)),
      d_to_i32 = (\<lambda>d. word_of_int (c_trunc d))\<rparr>"

text \<open>
  Another one: the same, but with a \<^verbatim>\<open>cos\<close> that returns 1 (as \<^verbatim>\<open>cos\<close> does in double precision
  on an argument below \<open>10\<^sup>-\<^sup>8\<close>).
\<close>

definition flat_arith :: "real arith" where
  "flat_arith = exact_arith\<lparr>d_cos := (\<lambda>x. 1)\<rparr>"

text \<open>The 5 by 5 surface with the four pixels at distance 1 from the center set.\<close>

definition fb5 :: Framebuffer where
  "fb5 = \<lparr>width = 5, height = 5,
           pixels = [0, 0, 0, 0, 0,  0, 0, 1, 0, 0,  0, 1, 0, 1, 0,  0, 0, 1, 0, 0,  0, 0, 0, 0, 0]\<rparr>"

section \<open>Fixed-point arithmetic\<close>

lemma FP_consts: "FP_BITS = 16" "FP_ONE = 65536" "FP_HALF = 32768"
  by (simp_all add: FP_BITS_def FP_ONE_def FP_HALF_def)

lemma fixed_to_int_div:
  assumes "sint f + 32768 < 2 ^ 31"
  shows "fixed_to_int f = (sint f + 32768) div 65536"
proof -
  have lo: "- (2 ^ 31) \<le> sint f" using sint_ge [of f] by simp
  have "sint (f + 32768) = signed_take_bit 31 (sint f + 32768)"
    by (simp add: sint_word_ariths)
  also have "\<dots> = sint f + 32768"
    using assms lo by (simp add: signed_take_bit_int_eq_self)
  finally show ?thesis
    by (simp add: fixed_to_int_def FP_consts sint_signed_drop_bit_eq drop_bit_int_def)
qed

lemma ucast_sint: "(ucast (w :: 64 word) :: 32 word) = word_of_int (sint w)"
proof -
  have "(ucast w :: 32 word) = ucast (word_of_int (sint w) :: 64 word)" by simp
  also have "\<dots> = word_of_int (sint w)" by (rule ucast_down_wi) (simp add: is_down)
  finally show ?thesis .
qed

text \<open>The 64-bit product never overflows, so \<^const>\<open>fp_mul\<close> is the floor of the exact product.\<close>

lemma fp_mul_int: "fp_mul a b = word_of_int ((sint a * sint b) div 65536)"
proof -
  have a: "sint (scast a :: 64 word) = sint a" by (simp add: sint_up_scast is_up)
  have b: "sint (scast b :: 64 word) = sint b" by (simp add: sint_up_scast is_up)
  have "\<bar>sint a\<bar> \<le> 2 ^ 31" using sint_ge [of a] sint_lt [of a] by simp
  moreover have "\<bar>sint b\<bar> \<le> 2 ^ 31" using sint_ge [of b] sint_lt [of b] by simp
  ultimately have "\<bar>sint a\<bar> * \<bar>sint b\<bar> \<le> 2 ^ 31 * 2 ^ 31"
    by (intro mult_mono) simp_all
  then have bd: "\<bar>sint a * sint b\<bar> \<le> 2 ^ 62" by (simp add: abs_mult)
  have "sint ((scast a :: 64 word) * scast b) = signed_take_bit 63 (sint a * sint b)"
    by (simp add: sint_word_mult a b)
  also have "\<dots> = sint a * sint b"
    using bd by (simp add: signed_take_bit_int_eq_self)
  finally have p: "sint ((scast a :: 64 word) * scast b) = sint a * sint b" .
  show ?thesis
    by (simp add: fp_mul_def FP_consts ucast_sint sint_signed_drop_bit_eq drop_bit_int_def p)
qed

text \<open>
  C6.  For a Q16.16 value \<open>f\<close> with \<open>f + 2^15\<close> not overflowing, \<^const>\<open>fixed_to_int\<close> is
  \<open>f + 2^15\<close> shifted right arithmetically by 16 bits, which is \<open>\<lfloor>(f + 32768) / 65536\<rfloor>\<close>, which
  is \<open>f / 2^16\<close> rounded to the nearest integer (at most a half away), an exact half going up.
\<close>

theorem fixed_to_int_round_half_up:
  assumes "sint f + 2 ^ 15 < 2 ^ 31"
  shows "fixed_to_int f = sint (signed_drop_bit 16 (f + 2 ^ 15))
       \<and> fixed_to_int f = (sint f + 32768) div 65536
       \<and> fixed_to_int f = \<lfloor>real_of_int (sint f) / 2 ^ 16 + 1 / 2\<rfloor>
       \<and> \<bar>real_of_int (fixed_to_int f) - real_of_int (sint f) / 2 ^ 16\<bar> \<le> 1 / 2
       \<and> (real_of_int (sint f) / 2 ^ 16 = real_of_int n + 1 / 2 \<longrightarrow> fixed_to_int f = n + 1)"
proof -
  let ?q = "real_of_int (sint f) / 2 ^ 16"
  have d: "fixed_to_int f = (sint f + 32768) div 65536"
    using assms by (simp add: fixed_to_int_div)
  have "?q + 1 / 2 = real_of_int (sint f + 32768) / real_of_int 65536"
    by (simp add: field_simps)
  then have "\<lfloor>?q + 1 / 2\<rfloor> = (sint f + 32768) div 65536"
    by (simp only: floor_divide_of_int_eq)
  then have r: "fixed_to_int f = \<lfloor>?q + 1 / 2\<rfloor>" using d by simp
  have n: "\<bar>real_of_int (fixed_to_int f) - ?q\<bar> \<le> 1 / 2"
    unfolding r by linarith
  have t: "?q = real_of_int n + 1 / 2 \<longrightarrow> fixed_to_int f = n + 1"
  proof
    assume h: "?q = real_of_int n + 1 / 2"
    have "?q + 1 / 2 = real_of_int (n + 1)" unfolding h by simp
    then show "fixed_to_int f = n + 1" unfolding r by (simp only: floor_of_int)
  qed
  show ?thesis using d r n t by (simp add: fixed_to_int_def FP_consts)
qed

theorem fixed_to_int_round_half_up_witness:
  "fixed_to_int 98304 = 2 \<and> fixed_to_int (- 98304) = - 1 \<and> fixed_to_int 98303 = 1"
proof -
  have a: "sint (98304 :: fixed_t) + 2 ^ 15 < 2 ^ 31" by simp
  have b: "sint (- 98304 :: fixed_t) + 2 ^ 15 < 2 ^ 31" by simp
  have c: "sint (98303 :: fixed_t) + 2 ^ 15 < 2 ^ 31" by simp
  show ?thesis
    using fixed_to_int_round_half_up [OF a, of 1] fixed_to_int_round_half_up [OF b, of "- 2"]
      fixed_to_int_round_half_up [OF c, of 0]
    by simp
qed

section \<open>The plot operation\<close>

lemma plot_eq_fb_plot: "plot = fb_plot"
  by (intro ext) (simp add: plot_def fb_plot_def)

lemma fb_plot_index:
  assumes "fb_wf fb" "0 \<le> px" "px < width fb" "0 \<le> py" "py < height fb"
  shows "nat (py * width fb + px) < length (pixels fb)"
proof -
  have "py * width fb + px < (py + 1) * width fb" using assms by (simp add: algebra_simps)
  also have "\<dots> \<le> height fb * width fb" using assms by (intro mult_right_mono) simp_all
  finally have "py * width fb + px < width fb * height fb" by (simp add: mult.commute)
  moreover have "0 \<le> py * width fb + px" using assms by simp
  ultimately show ?thesis using assms(1) by (simp add: fb_wf_def)
qed

lemma fb_plot_dims [simp]:
  "width (fb_plot fb x y) = width fb" "height (fb_plot fb x y) = height fb"
  "length (pixels (fb_plot fb x y)) = length (pixels fb)"
  by (simp_all add: fb_plot_def Let_def)


text \<open>
  C10.  On a surface as \<^verbatim>\<open>fb_create\<close> makes it, the plot operation (\<^verbatim>\<open>fb_plot\<close>, and \<^verbatim>\<open>plot\<close>
  alike) keeps the dimensions and translates the point by \<open>(width / 2, height / 2)\<close>; when
  the translated point is within bounds it sets the byte of that pixel to 1 and changes no
  other byte, and otherwise it leaves the surface as it is.
\<close>

theorem fb_plot_frame:
  assumes "fb_wf fb"
  shows "width (fb_plot fb x y) = width fb \<and> height (fb_plot fb x y) = height fb
       \<and> length (pixels (fb_plot fb x y)) = length (pixels fb)
       \<and> plot fb x y = fb_plot fb x y
       \<and> (let px = x + width fb sdiv 2; py = y + height fb sdiv 2; i = nat (py * width fb + px)
          in if 0 \<le> px \<and> px < width fb \<and> 0 \<le> py \<and> py < height fb
             then i < length (pixels fb) \<and> pixels (fb_plot fb x y) ! i = 1
                  \<and> (\<forall>j. j \<noteq> i \<longrightarrow> pixels (fb_plot fb x y) ! j = pixels fb ! j)
             else fb_plot fb x y = fb)"
proof -
  let ?px = "x + width fb sdiv 2" and ?py = "y + height fb sdiv 2"
  show ?thesis
  proof (cases "0 \<le> ?px \<and> ?px < width fb \<and> 0 \<le> ?py \<and> ?py < height fb")
    case True
    then have "nat (?py * width fb + ?px) < length (pixels fb)"
      using fb_plot_index [OF assms, of ?px ?py] by simp
    with True show ?thesis
      by (simp add: plot_eq_fb_plot) (simp add: fb_plot_def Let_def)
  next
    case False
    then show ?thesis
      by (simp add: plot_eq_fb_plot) (auto simp add: fb_plot_def Let_def)
  qed
qed

theorem fb_plot_frame_witness:
  "fb_wf (fb_create 3 3)
   \<and> pixels (fb_plot (fb_create 3 3) 0 0) = [0, 0, 0, 0, 1, 0, 0, 0, 0]
   \<and> fb_plot (fb_create 3 3) 2 0 = fb_create 3 3"
proof -
  have wf: "fb_wf (fb_create 3 3)" by (simp add: fb_wf_def fb_create_def)
  show ?thesis
    using wf fb_plot_frame [OF wf, of 0 0] fb_plot_frame [OF wf, of 2 0]
    by (simp add: fb_create_def fb_plot_def Let_def numeral_eq_Suc)
qed

section \<open>The octant expander\<close>

lemma plot_all_simps [simp]:
  "plot_all fb [] = fb" "plot_all fb (p # ps) = plot_all (fb_plot fb (fst p) (snd p)) ps"
  by (simp_all add: plot_all_def)

lemma plot_all_append: "plot_all fb (ps @ qs) = plot_all (plot_all fb ps) qs"
  by (simp add: plot_all_def)

lemma fb_plot_alt:
  "fb_plot fb x y =
     (if fb_in_bounds fb x y then fb\<lparr>pixels := (pixels fb)[fb_index fb x y := 1]\<rparr> else fb)"
  by (simp add: fb_plot_def fb_in_bounds_def fb_index_def Let_def)

lemma fb_in_bounds_upd [simp]:
  "fb_in_bounds (fb\<lparr>pixels := ps\<rparr>) x y = fb_in_bounds fb x y"
  "fb_index (fb\<lparr>pixels := ps\<rparr>) x y = fb_index fb x y"
  by (simp_all add: fb_in_bounds_def fb_index_def)

lemma fb_plot_idem: "fb_plot (fb_plot fb x y) x y = fb_plot fb x y"
  by (simp add: fb_plot_alt)

lemma fb_plot_commute: "fb_plot (fb_plot fb x y) u v = fb_plot (fb_plot fb u v) x y"
proof -
  have "(pixels fb)[fb_index fb x y := 1, fb_index fb u v := 1]
      = (pixels fb)[fb_index fb u v := 1, fb_index fb x y := 1]"
    by (cases "fb_index fb x y = fb_index fb u v") (simp_all add: list_update_swap)
  then show ?thesis by (simp add: fb_plot_alt)
qed

lemma plot_all_commute: "plot_all (fb_plot fb x y) ps = fb_plot (plot_all fb ps) x y"
proof (induction ps arbitrary: fb)
  case Nil
  then show ?case by simp
next
  case (Cons p ps)
  have "plot_all (fb_plot fb x y) (p # ps) = plot_all (fb_plot (fb_plot fb (fst p) (snd p)) x y) ps"
    by (simp add: fb_plot_commute [of fb x y])
  then show ?case using Cons.IH by simp
qed

lemma plot_all_absorb: "p \<in> set ps \<Longrightarrow> plot_all (fb_plot fb (fst p) (snd p)) ps = plot_all fb ps"
proof (induction ps arbitrary: fb)
  case Nil
  then show ?case by simp
next
  case (Cons q ps)
  show ?case
  proof (cases "p = q")
    case True
    then show ?thesis by (simp add: fb_plot_idem)
  next
    case False
    then have "p \<in> set ps" using Cons.prems by simp
    then show ?thesis
      using Cons.IH [of "fb_plot fb (fst q) (snd q)"]
      by (simp add: fb_plot_commute [of fb "fst p" "snd p"])
  qed
qed

lemma plot_all_remdups: "plot_all fb (remdups ps) = plot_all fb ps"
  by (induction ps arbitrary: fb) (simp_all add: plot_all_absorb)

lemma fb_plot8_plot_all: "fb_plot8 fb cx cy x y = plot_all fb (fb_plot8_calls cx cy x y)"
  by (simp add: fb_plot8_def fb_plot8_calls_def Let_def)

lemma plot8_plot_all: "plot8 fb x y = plot_all fb (plot8_calls x y)"
  by (simp add: plot8_def plot8_calls_def Let_def plot_eq_fb_plot)

lemma plot8_is_fb_plot8: "plot8 fb x y = fb_plot8 fb 0 0 x y"
  by (simp add: plot8_plot_all fb_plot8_plot_all plot8_calls_def fb_plot8_calls_def)

text \<open>
  C4.  For a sample \<open>(x, y)\<close> and a center \<open>(cx, cy)\<close> the expander calls the plot operation
  eight times, on the points \<open>(\<plusminus>x, \<plusminus>y)\<close> and \<open>(\<plusminus>y, \<plusminus>x)\<close> translated by the center, as a
  multiset.  It removes no duplicate: for \<open>0 \<le> y \<le> x\<close> the eight points are pairwise
  distinct exactly when \<open>y \<noteq> 0\<close> and \<open>x \<noteq> y\<close>.  The surface absorbs the duplicates:
  plotting a point twice is plotting it once, and plotting the eight points without their
  duplicates gives the same surface.
\<close>

theorem plot8_emits_symmetric8:
  "fb_plot8 fb cx cy x y = plot_all fb (fb_plot8_calls cx cy x y)
   \<and> plot8 fb x y = plot_all fb (plot8_calls x y)
   \<and> mset (fb_plot8_calls cx cy x y) = mset (map (\<lambda>(a, b). (cx + a, cy + b)) (symmetric8 x y))
   \<and> mset (plot8_calls x y) = mset (symmetric8 x y)
   \<and> length (fb_plot8_calls cx cy x y) = 8 \<and> length (plot8_calls x y) = 8
   \<and> (0 \<le> y \<and> y \<le> x \<longrightarrow>
        (distinct (fb_plot8_calls cx cy x y) \<longleftrightarrow> y \<noteq> 0 \<and> x \<noteq> y)
      \<and> (distinct (plot8_calls x y) \<longleftrightarrow> y \<noteq> 0 \<and> x \<noteq> y))
   \<and> fb_plot (fb_plot fb px py) px py = fb_plot fb px py
   \<and> plot_all fb (remdups (fb_plot8_calls cx cy x y)) = fb_plot8 fb cx cy x y
   \<and> plot_all fb (remdups (plot8_calls x y)) = plot8 fb x y"
proof -
  have d1: "0 \<le> y \<and> y \<le> x \<longrightarrow> (distinct (fb_plot8_calls cx cy x y) \<longleftrightarrow> y \<noteq> 0 \<and> x \<noteq> y)"
    by (auto simp add: fb_plot8_calls_def)
  have d2: "0 \<le> y \<and> y \<le> x \<longrightarrow> (distinct (plot8_calls x y) \<longleftrightarrow> y \<noteq> 0 \<and> x \<noteq> y)"
    by (auto simp add: plot8_calls_def)
  have m1: "mset (fb_plot8_calls cx cy x y) = mset (map (\<lambda>(a, b). (cx + a, cy + b)) (symmetric8 x y))"
    by (simp add: fb_plot8_calls_def symmetric8_def)
  have m2: "mset (plot8_calls x y) = mset (symmetric8 x y)"
    by (simp add: plot8_calls_def symmetric8_def)
  show ?thesis
    using d1 d2 m1 m2
    by (simp add: fb_plot8_plot_all plot8_plot_all plot_all_remdups fb_plot_idem)
      (simp add: fb_plot8_calls_def plot8_calls_def)
qed

theorem plot8_emits_symmetric8_witness:
  "\<not> distinct (fb_plot8_calls 0 0 3 0) \<and> \<not> distinct (fb_plot8_calls 1 2 3 3)
   \<and> distinct (fb_plot8_calls 0 0 3 1)
   \<and> mset (fb_plot8_calls 10 20 2 1) =
       {#(12, 21), (8, 21), (12, 19), (8, 19), (11, 22), (9, 22), (11, 18), (9, 18)#}"
  using plot8_emits_symmetric8 [of _ 0 0 3 0] plot8_emits_symmetric8 [of _ 1 2 3 3]
    plot8_emits_symmetric8 [of _ 0 0 3 1] plot8_emits_symmetric8 [of _ 10 20 2 1]
  by (simp add: symmetric8_def)


section \<open>The octant loop\<close>

lemma first_at_iff: "first_at P k \<longleftrightarrow> (\<forall>i<k. \<not> P i) \<and> P k"
  by (auto simp add: first_at_def list_all_iff)

lemma first_crossing_iff: "first_crossing s k \<longleftrightarrow> (\<forall>i<k. \<not> crossed (s i)) \<and> crossed (s k)"
  by (simp add: first_crossing_def first_at_iff)

lemma octant_loop_unroll:
  "octant_loop sample step body acc st =
     (if crossed (sample st) then Some acc
      else octant_loop sample step body (body acc (fst (sample st)) (snd (sample st))) (step st))"
  by (subst octant_loop.simps) (simp add: crossed_def split: prod.splits)

lemma octant_loop_Some:
  assumes "\<forall>i<k. \<not> crossed (sample ((step ^^ i) st))" "crossed (sample ((step ^^ k) st))"
  shows "octant_loop sample step body acc st = Some (octant_run sample step body acc st k)"
  using assms
proof (induction k arbitrary: acc st)
  case 0
  then show ?case by (subst octant_loop_unroll) simp
next
  case (Suc k)
  have n0: "\<not> crossed (sample st)" using Suc.prems(1) by (elim allE [of _ 0]) simp
  have a: "\<forall>i<k. \<not> crossed (sample ((step ^^ i) (step st)))"
  proof (intro allI impI)
    fix i assume "i < k"
    then have "\<not> crossed (sample ((step ^^ Suc i) st))" using Suc.prems(1) by blast
    then show "\<not> crossed (sample ((step ^^ i) (step st)))" by (simp add: funpow_swap1)
  qed
  have b: "crossed (sample ((step ^^ k) (step st)))"
    using Suc.prems(2) by (simp add: funpow_swap1)
  show ?case
    using Suc.IH [OF a b] n0 by (subst octant_loop_unroll) simp
qed

lemma octant_loop_returns:
  assumes "octant_loop sample step body acc st = Some r"
  shows "\<exists>k. (\<forall>i<k. \<not> crossed (sample ((step ^^ i) st))) \<and> crossed (sample ((step ^^ k) st))
         \<and> r = octant_run sample step body acc st k"
  using assms
proof (induction sample step body acc st r rule: octant_loop.raw_induct [rotated, consumes 1])
  case (1 f sample step body acc st r)
  show ?case
  proof (cases "crossed (sample st)")
    case True
    with 1(2) have "r = acc" by (simp add: crossed_def split: prod.splits if_splits)
    with True show ?thesis by (intro exI [of _ 0]) simp
  next
    case False
    with 1(2) have "f sample step body (body acc (fst (sample st)) (snd (sample st))) (step st) = Some r"
      by (simp add: crossed_def split: prod.splits if_splits)
    from 1(1) [OF this] obtain k where kk:
      "(\<forall>i<k. \<not> crossed (sample ((step ^^ i) (step st)))) \<and> crossed (sample ((step ^^ k) (step st)))
       \<and> r = octant_run sample step body (body acc (fst (sample st)) (snd (sample st))) (step st) k" ..
    note k = conjunct1 [OF kk] conjunct1 [OF conjunct2 [OF kk]] conjunct2 [OF conjunct2 [OF kk]]
    have "\<forall>i<Suc k. \<not> crossed (sample ((step ^^ i) st))"
    proof (intro allI impI)
      fix i assume i: "i < Suc k"
      show "\<not> crossed (sample ((step ^^ i) st))"
      proof (cases i)
        case 0
        with False show ?thesis by simp
      next
        case (Suc j)
        with i have "j < k" by simp
        with k(1) have "\<not> crossed (sample ((step ^^ j) (step st)))" by blast
        with Suc show ?thesis by (simp add: funpow_swap1)
      qed
    qed
    moreover have "crossed (sample ((step ^^ Suc k) st))" using k(2) by (simp add: funpow_swap1)
    ultimately show ?thesis using k(3) by (intro exI [of _ "Suc k"]) simp
  qed
qed

lemma octant_loop_None:
  assumes "\<forall>k. \<not> crossed (sample ((step ^^ k) st))"
  shows "octant_loop sample step body acc st = None"
proof (cases "octant_loop sample step body acc st")
  case None
  then show ?thesis .
next
  case (Some r)
  from octant_loop_returns [OF this] assms show ?thesis by blast
qed


lemma octant_run_index:
  "octant_run sample step body acc ((step ^^ j) st) k
     = octant_run (\<lambda>n. sample ((step ^^ n) st)) Suc body acc j k"
proof (induction k arbitrary: acc j)
  case 0
  show ?case by simp
next
  case (Suc k)
  show ?case using Suc.IH [of _ "Suc j"] by simp
qed

lemma funpow_Suc_0 [simp]: "(Suc ^^ i) 0 = i"
  by (induction i) simp_all

text \<open>
  The loop is determined by the sequence of its samples: it returns at the first sample that
  has crossed, with the accumulator run over the samples before, and it does not return
  when no sample crosses.
\<close>

lemma octant_loop_first_crossing:
  assumes "first_crossing (\<lambda>n. sample ((step ^^ n) st)) k"
  shows "octant_loop sample step body acc st
       = Some (octant_run (\<lambda>n. sample ((step ^^ n) st)) Suc body acc 0 k)"
proof -
  have "octant_loop sample step body acc st = Some (octant_run sample step body acc st k)"
    using assms by (intro octant_loop_Some) (simp_all add: first_crossing_iff)
  then show ?thesis using octant_run_index [of sample step body acc 0 st k] by simp
qed

lemma octant_loop_never_crossing:
  assumes "\<forall>k. \<not> crossed (sample ((step ^^ k) st))"
  shows "octant_loop sample step body acc st = None"
  using assms by (rule octant_loop_None)

text \<open>What the two loop bodies accumulate over the samples \<open>s j, \<dots>, s (j + k - 1)\<close>.\<close>

lemma octant_run_plot8_count:
  "octant_run s Suc (plot8_count cx cy) (fb, n) j k
     = (foldl (\<lambda>f i. fb_plot8 f cx cy (fst (s i)) (snd (s i))) fb [j..<j + k], n + word_of_int (8 * int k))"
proof (induction k arbitrary: fb n j)
  case 0
  show ?case by simp
next
  case (Suc k)
  have u: "[j..<j + Suc k] = j # [Suc j..<Suc j + k]" by (simp add: upt_conv_Cons)
  show ?case
    unfolding u using Suc.IH [of "fb_plot8 fb cx cy (fst (s j)) (snd (s j))" "n + 8" "Suc j"]
    by (simp add: plot8_count_def algebra_simps)
qed

lemma octant_run_plot8:
  "octant_run s Suc plot8 fb j k
     = foldl (\<lambda>f i. fb_plot8 f 0 0 (fst (s i)) (snd (s i))) fb [j..<j + k]"
proof (induction k arbitrary: fb j)
  case 0
  show ?case by simp
next
  case (Suc k)
  have u: "[j..<j + Suc k] = j # [Suc j..<Suc j + k]" by (simp add: upt_conv_Cons)
  show ?case
    unfolding u using Suc.IH [of "plot8 fb (fst (s j)) (snd (s j))" "Suc j"]
    by (simp add: plot8_is_fb_plot8)
qed

lemma octant_run_plot8_samples:
  "octant_run s Suc (plot8_count cx cy) (fb, 0) 0 k = (plot8_samples fb cx cy s k, word_of_int (8 * int k))"
  "octant_run s Suc plot8 fb 0 k = plot8_samples fb 0 0 s k"
  using octant_run_plot8_count [of s cx cy fb 0 0 k] octant_run_plot8 [of s fb 0 k]
  by (simp_all add: plot8_samples_def)

section \<open>Bresenham's loop\<close>








section \<open>Counting pixels\<close>


lemma num_set_pixels_le: "num_set_pixels fb \<le> length (pixels fb)"
  by (simp add: num_set_pixels_def)

lemma sum_uint_binary:
  "list_all (\<lambda>b. b = 0 \<or> b = 1) xs \<Longrightarrow> (\<Sum>b\<leftarrow>xs. uint (b :: 8 word)) = int (length (filter (\<lambda>b. b = 1) xs))"
  by (induction xs) auto

lemma count_px_num:
  assumes "fb_wf fb" "fb_binary fb"
  shows "count_px fb = word_of_int (int (num_set_pixels fb))"
    "fb_count_pixels fb = word_of_int (int (num_set_pixels fb))"
proof -
  have "take (nat (width fb * height fb)) (pixels fb) = pixels fb"
    using assms(1) by (simp add: fb_wf_def)
  then show "count_px fb = word_of_int (int (num_set_pixels fb))"
    "fb_count_pixels fb = word_of_int (int (num_set_pixels fb))"
    using sum_uint_binary [of "pixels fb"] assms(2)
    by (simp_all add: count_px_def fb_count_pixels_def num_set_pixels_def fb_binary_def)
qed

lemma sint_of_int_small: "0 \<le> i \<Longrightarrow> i < 2 ^ 31 \<Longrightarrow> sint (word_of_int i :: 32 word) = i"
  by (simp add: sint_sbintrunc' signed_take_bit_int_eq_self)

text \<open>On a surface of fewer than \<open>2\<^sup>3\<^sup>1\<close> pixels the number of set pixels fits an \<^verbatim>\<open>int\<close>.\<close>

lemma sint_num_set_pixels:
  assumes "fb_wf fb" "width fb * height fb < 2 ^ 31"
  shows "sint (word_of_int (int (num_set_pixels fb)) :: cint) = int (num_set_pixels fb)"
proof -
  have "int (length (pixels fb)) < 2 ^ 31" using assms by (simp add: fb_wf_def)
  then have "int (num_set_pixels fb) < 2 ^ 31" using num_set_pixels_le [of fb] by linarith
  then show ?thesis using sint_of_int_small [of "int (num_set_pixels fb)"] by simp
qed

lemma counts_set_pixels_count_px:
  assumes "fb_wf fb" "fb_binary fb" "width fb * height fb < 2 ^ 31"
  shows "counts_set_pixels (fb, count_px fb)"
  using sint_num_set_pixels [OF assms(1,3)] by (simp add: counts_set_pixels_def count_px_num [OF assms(1,2)])






lemma fb_plot8_dims [simp]:
  "width (fb_plot8 fb cx cy x y) = width fb" "height (fb_plot8 fb cx cy x y) = height fb"
  by (simp_all add: fb_plot8_def Let_def)





lemma plot8_samples_Suc:
  "plot8_samples fb cx cy s 0 = fb"
  "plot8_samples fb cx cy s (Suc k) = fb_plot8 (plot8_samples fb cx cy s k) cx cy (fst (s k)) (snd (s k))"
  by (simp_all add: plot8_samples_def)






section \<open>Sweeps at a radius that is not positive\<close>

text \<open>
  C5.  For a radius \<open>r \<le> 0\<close> every sweep (the four DF2 and coupled sweeps and Bresenham of
  the benchmark, and the four sweeps of the comparison) returns the count 0 and the surface
  it was given, whatever the center.
\<close>

theorem nonpositive_radius_noop:
  assumes "r \<le> 0"
  shows "circle_df2_float_sym8 ops fb cx cy r = Some (fb, 0)
       \<and> circle_df2_fixed_sym8 ops fb cx cy r = Some (fb, 0)
       \<and> circle_coupled_float_sym8 ops fb cx cy r = Some (fb, 0)
       \<and> circle_coupled_fixed_sym8 ops fb cx cy r = Some (fb, 0)
       \<and> circle_bresenham fb cx cy r = Some (fb, 0)
       \<and> df2_full ops fb r = (fb, 0)
       \<and> df2_sym8 ops fb r = Some (fb, 0)
       \<and> bres_sym8 fb r = Some (fb, 0)
       \<and> bres_full fb r = Some (fb, 0)"
  using assms
  by (simp add: circle_df2_float_sym8_def circle_df2_fixed_sym8_def circle_coupled_float_sym8_def
      circle_coupled_fixed_sym8_def circle_bresenham_def df2_full_def df2_sym8_def bres_sym8_def
      bres_full_def)

theorem nonpositive_radius_noop_witness:
  "circle_df2_fixed_sym8 exact_arith (fb_create 3 3) 0 0 0 = Some (fb_create 3 3, 0)
   \<and> circle_df2_fixed_sym8 exact_arith (fb_create 3 3) 0 0 (- 5) = Some (fb_create 3 3, 0)
   \<and> df2_full exact_arith (fb_create 3 3) (- 5) = (fb_create 3 3, 0)
   \<and> circle_df2_float_sym8 exact_arith (fb_create 3 3) 1 2 0 = Some (fb_create 3 3, 0)"
proof -
  have a: "(0::int) \<le> 0" and b: "(- 5::int) \<le> 0" by simp_all
  show ?thesis
    using nonpositive_radius_noop [OF a, of exact_arith "fb_create 3 3" 0 0]
      nonpositive_radius_noop [OF b, of exact_arith "fb_create 3 3" 0 0]
      nonpositive_radius_noop [OF a, of exact_arith "fb_create 3 3" 1 2]
    by simp
qed

section \<open>Transcendental bounds\<close>

lemma sum_lessThan_10:
  fixes g :: "nat \<Rightarrow> real"
  shows "(\<Sum>m<10. g m) = g 0 + g 1 + g 2 + g 3 + g 4 + g 5 + g 6 + g 7 + g 8 + g 9"
  by (simp add: eval_nat_numeral)

lemma cos_coeff_values:
  "cos_coeff 0 = 1" "cos_coeff 1 = 0" "cos_coeff 2 = - 1 / 2" "cos_coeff 3 = 0"
  "cos_coeff 4 = 1 / 24" "cos_coeff 5 = 0" "cos_coeff 6 = - 1 / 720" "cos_coeff 7 = 0"
  "cos_coeff 8 = 1 / 40320" "cos_coeff 9 = 0"
  by (simp_all add: cos_coeff_def sin_coeff_def fact_numeral)

lemma cos_two_thirds:
  "0.7858872 < cos (2 / 3 :: real)" "cos (2 / 3 :: real) < 0.7858873"
proof -
  obtain t where t: "cos (2 / 3 :: real) =
      (\<Sum>m<10. cos_coeff m * (2 / 3) ^ m) + cos (t + 1 / 2 * real 10 * pi) / fact 10 * (2 / 3) ^ 10"
    using Maclaurin_cos_expansion [of "2 / 3" 10] by blast
  have s: "(\<Sum>m<10. cos_coeff m * (2 / 3 :: real) ^ m)
         = 1 - (2 / 3) ^ 2 / 2 + (2 / 3) ^ 4 / 24 - (2 / 3) ^ 6 / 720 + (2 / 3) ^ 8 / 40320"
    by (simp add: sum_lessThan_10 cos_coeff_values del: One_nat_def)
  have r: "\<bar>cos (t + 1 / 2 * real 10 * pi) / fact 10 * (2 / 3 :: real) ^ 10\<bar> \<le> (2 / 3) ^ 10 / 3628800"
  proof -
    have "\<bar>cos (t + 1 / 2 * real 10 * pi)\<bar> \<le> 1" by (rule abs_cos_le_one)
    then have "\<bar>cos (t + 1 / 2 * real 10 * pi)\<bar> * ((2 / 3 :: real) ^ 10 / 3628800) \<le> 1 * ((2 / 3) ^ 10 / 3628800)"
      by (intro mult_right_mono) simp_all
    then show ?thesis by (simp add: abs_mult fact_numeral)
  qed
  define e where "e = cos (t + 1 / 2 * real 10 * pi) / fact 10 * (2 / 3 :: real) ^ 10"
  have e: "\<bar>e\<bar> \<le> (2 / 3) ^ 10 / 3628800" using r by (simp add: e_def)
  have c: "cos (2 / 3 :: real) = 1 - (2 / 3) ^ 2 / 2 + (2 / 3) ^ 4 / 24 - (2 / 3) ^ 6 / 720 + (2 / 3) ^ 8 / 40320 + e"
    using t s by (simp add: e_def)
  have p: "(2 / 3 :: real) ^ 2 = 4 / 9" "(2 / 3 :: real) ^ 4 = 16 / 81" "(2 / 3 :: real) ^ 6 = 64 / 729"
    "(2 / 3 :: real) ^ 8 = 256 / 6561" "(2 / 3 :: real) ^ 10 = 1024 / 59049"
    by (simp_all add: power_divide)
  show "0.7858872 < cos (2 / 3 :: real)" "cos (2 / 3 :: real) < 0.7858873"
    using e unfolding c p by (simp_all add: abs_le_iff)
qed

section \<open>The DF2 recurrence\<close>

lemma octant_loop_index:
  "octant_loop sample step body acc st = octant_loop (\<lambda>n. sample ((step ^^ n) st)) Suc body acc 0"
proof (cases "octant_loop sample step body acc st")
  case None
  show ?thesis
  proof (cases "octant_loop (\<lambda>n. sample ((step ^^ n) st)) Suc body acc 0")
    case None
    with \<open>octant_loop sample step body acc st = None\<close> show ?thesis by simp
  next
    case (Some r)
    from octant_loop_returns [OF this] obtain k where
      "\<forall>i<k. \<not> crossed (sample ((step ^^ i) st))" "crossed (sample ((step ^^ k) st))"
      by auto
    from octant_loop_Some [OF this, of body acc] None show ?thesis by simp
  qed
next
  case (Some r)
  from octant_loop_returns [OF this] obtain k where k:
    "\<forall>i<k. \<not> crossed (sample ((step ^^ i) st))" "crossed (sample ((step ^^ k) st))"
    "r = octant_run sample step body acc st k"
    by auto
  have "octant_loop (\<lambda>n. sample ((step ^^ n) st)) Suc body acc 0
        = Some (octant_run (\<lambda>n. sample ((step ^^ n) st)) Suc body acc 0 k)"
    using k(1,2) by (intro octant_loop_Some) simp_all
  moreover have "octant_run sample step body acc st k
        = octant_run (\<lambda>n. sample ((step ^^ n) st)) Suc body acc 0 k"
    using octant_run_index [of sample step body acc 0 st k] by simp
  ultimately show ?thesis using Some k(3) by simp
qed

text \<open>The loop over an indexed sequence of samples.\<close>

lemma octant_index_Some:
  assumes "first_crossing s k"
  shows "octant_loop s Suc body acc 0 = Some (octant_run s Suc body acc 0 k)"
  using assms by (intro octant_loop_Some) (simp_all add: first_crossing_iff)

lemma octant_index_None:
  assumes "\<forall>n. \<not> crossed (s n)"
  shows "octant_loop s Suc body acc 0 = None"
  using assms by (intro octant_loop_None) simp

lemma df2_float_state:
  "(df2_step (d_mul ops) (d_sub ops) (df2_coeff ops r) ^^ n) (df2_w ops r 0, df2_w ops r (Suc 0))
     = (df2_w ops r n, df2_w ops r (Suc n))"
  by (induction n) (simp_all add: df2_step_def)

lemma df2_fixed_state:
  "(df2_step fp_mul (-) (to_fixed ops (df2_coeff ops r)) ^^ n) (df2_wq ops r 0, df2_wq ops r (Suc 0))
     = (df2_wq ops r n, df2_wq ops r (Suc n))"
  by (induction n) (simp_all add: df2_step_def)

lemma circle_df2_float_sym8_index:
  assumes "0 < r"
  shows "circle_df2_float_sym8 ops fb cx cy r
     = octant_loop (df2_float_sample ops r) Suc (plot8_count cx cy) (fb, 0) 0"
proof -
  let ?sample = "\<lambda>(w0, w1). (round_int ops w1, round_int ops (d_mul ops (d_sub ops w1 w0) (df2_scale ops r)))"
  let ?step = "df2_step (d_mul ops) (d_sub ops) (df2_coeff ops r)"
  let ?init = "(df2_w ops r 0, df2_w ops r (Suc 0))"
  have "circle_df2_float_sym8 ops fb cx cy r = octant_loop ?sample ?step (plot8_count cx cy) (fb, 0) ?init"
    using assms by (simp add: circle_df2_float_sym8_def Let_def df2_omega_def df2_coeff_def df2_scale_def)
  also have "\<dots> = octant_loop (\<lambda>n. ?sample ((?step ^^ n) ?init)) Suc (plot8_count cx cy) (fb, 0) 0"
    by (rule octant_loop_index)
  also have "(\<lambda>n. ?sample ((?step ^^ n) ?init)) = df2_float_sample ops r"
    unfolding df2_float_state by (intro ext) (simp only: df2_float_sample_def split_conv)
  finally show ?thesis .
qed

lemma circle_df2_fixed_sym8_index:
  assumes "0 < r"
  shows "circle_df2_fixed_sym8 ops fb cx cy r
     = octant_loop (df2_fixed_sample ops r) Suc (plot8_count cx cy) (fb, 0) 0"
proof -
  let ?sample = "\<lambda>(w0, w1). (fixed_to_int w1, fixed_to_int (fp_mul (w1 - w0) (to_fixed ops (df2_scale ops r))))"
  let ?step = "df2_step fp_mul (-) (to_fixed ops (df2_coeff ops r))"
  let ?init = "(df2_wq ops r 0, df2_wq ops r (Suc 0))"
  have "circle_df2_fixed_sym8 ops fb cx cy r = octant_loop ?sample ?step (plot8_count cx cy) (fb, 0) ?init"
    using assms by (simp add: circle_df2_fixed_sym8_def Let_def df2_omega_def df2_coeff_def df2_scale_def)
  also have "\<dots> = octant_loop (\<lambda>n. ?sample ((?step ^^ n) ?init)) Suc (plot8_count cx cy) (fb, 0) 0"
    by (rule octant_loop_index)
  also have "(\<lambda>n. ?sample ((?step ^^ n) ?init)) = df2_fixed_sample ops r"
    unfolding df2_fixed_state by (intro ext) (simp only: df2_fixed_sample_def split_conv)
  finally show ?thesis .
qed


lemma fixed_sample_round:
  assumes "- (2 ^ 31) \<le> (sint d * sint s) div 65536" "(sint d * sint s) div 65536 + 32768 < 2 ^ 31"
  shows "fixed_to_int (fp_mul d s)
       = \<lfloor>real_of_int (sint d) / 2 ^ 16 * (real_of_int (sint s) / 2 ^ 16) + 1 / 2\<rfloor>"
proof -
  let ?P = "sint d * sint s"
  have "sint (word_of_int (?P div 65536) :: fixed_t) = signed_take_bit 31 (?P div 65536)"
    by (simp add: sint_sbintrunc')
  also have "\<dots> = ?P div 65536"
    using assms by (simp add: signed_take_bit_int_eq_self)
  finally have m: "sint (fp_mul d s) = ?P div 65536" by (simp add: fp_mul_int)
  have "fixed_to_int (fp_mul d s) = (?P div 65536 + 32768) div 65536"
    using assms(2) by (simp add: fixed_to_int_div m)
  also have "\<dots> = ((?P + 32768 * 65536) div 65536) div 65536" by simp
  also have "\<dots> = (?P + 32768 * 65536) div (65536 * 65536)"
    by (simp add: div_mult2_eq)
  also have "\<dots> = \<lfloor>real_of_int (?P + 32768 * 65536) / real_of_int (65536 * 65536)\<rfloor>"
    by (simp only: floor_divide_of_int_eq)
  also have "real_of_int (?P + 32768 * 65536) / real_of_int (65536 * 65536)
      = real_of_int (sint d) / 2 ^ 16 * (real_of_int (sint s) / 2 ^ 16) + 1 / 2"
    by (simp add: field_simps)
  finally show ?thesis .
qed

text \<open>The two arithmetics at radius 1.\<close>

lemma to_fixed_exact:
  "to_fixed exact_arith d = word_of_int (c_trunc (d * 65536 + (if 0 \<le> d then 1 / 2 else - (1 / 2))))"
  "to_fixed flat_arith d = to_fixed exact_arith d"
  by (simp_all add: to_fixed_def exact_arith_def flat_arith_def FP_consts)

lemma to_fixed_nonneg:
  assumes "0 \<le> d" "real_of_int n \<le> d * 65536 + 1 / 2" "d * 65536 + 1 / 2 < real_of_int n + 1"
  shows "to_fixed exact_arith d = word_of_int n"
proof -
  have "\<lfloor>d * 65536 + 1 / 2\<rfloor> = n" using assms(2,3) by (intro floor_unique) simp_all
  moreover have "0 \<le> d * 65536 + 1 / 2" using assms(1) by simp
  ultimately show ?thesis using assms(1) by (simp add: to_fixed_exact c_trunc_def)
qed

lemma to_fixed_values:
  "to_fixed exact_arith (2 * cos (2 / 3)) = 103008" "to_fixed exact_arith (cos (2 / 3)) = 51504"
  "to_fixed exact_arith (- (3 / 2)) = - 98304" "to_fixed exact_arith 1 = 65536"
  "to_fixed exact_arith 2 = 131072"
proof -
  show "to_fixed exact_arith (2 * cos (2 / 3)) = 103008"
    using cos_two_thirds by (subst to_fixed_nonneg [of _ 103008]) simp_all
  show "to_fixed exact_arith (cos (2 / 3)) = 51504"
    using cos_two_thirds by (subst to_fixed_nonneg [of _ 51504]) simp_all
  show "to_fixed exact_arith (- (3 / 2)) = - 98304"
    by (simp add: to_fixed_exact c_trunc_def)
  show "to_fixed exact_arith 1 = 65536"
    by (subst to_fixed_nonneg [of _ 65536]) simp_all
  show "to_fixed exact_arith 2 = 131072"
    by (subst to_fixed_nonneg [of _ 131072]) simp_all
qed

lemma c_round_eq:
  "real_of_int n - 1 / 2 < d \<Longrightarrow> d < real_of_int n + 1 / 2 \<Longrightarrow> c_round d = n"
  unfolding c_round_def by (auto intro!: floor_unique ceiling_unique)

lemma round_int_exact:
  assumes "c_round d = n" "- (2 ^ 31) \<le> n" "n < 2 ^ 31"
  shows "round_int exact_arith d = n" "round_int flat_arith d = n"
proof -
  have "c_trunc (real_of_int n) = n" by (simp add: c_trunc_def)
  moreover have "sint (word_of_int n :: 32 word) = n"
    using assms(2,3) by (simp add: sint_sbintrunc' signed_take_bit_int_eq_self)
  ultimately show "round_int exact_arith d = n" "round_int flat_arith d = n"
    using assms(1) by (simp_all add: round_int_def exact_arith_def flat_arith_def)
qed

lemma df2_params_1:
  "df2_omega exact_arith 1 = 2 / 3" "df2_coeff exact_arith 1 = 2 * cos (2 / 3)"
  "df2_scale exact_arith 1 = - (3 / 2)"
  "df2_omega flat_arith 1 = 2 / 3" "df2_coeff flat_arith 1 = 2"
  "df2_scale flat_arith 1 = - (3 / 2)"
  by (simp_all add: df2_omega_def df2_coeff_def df2_scale_def exact_arith_def flat_arith_def)

lemma df2_w_1:
  "df2_w exact_arith 1 0 = cos (2 / 3)" "df2_w exact_arith 1 (Suc 0) = 1"
  "df2_w exact_arith 1 (Suc (Suc 0)) = cos (2 / 3)"
  "df2_w exact_arith 1 (Suc (Suc (Suc 0))) = 2 * cos (2 / 3) * cos (2 / 3) - 1"
  by (simp_all add: df2_params_1) (simp_all add: exact_arith_def)

lemma df2_float_sample_1:
  "df2_float_sample exact_arith 1 0 = (1, 0)" "df2_float_sample exact_arith 1 (Suc 0) = (1, 0)"
  "df2_float_sample exact_arith 1 (Suc (Suc 0)) = (0, 1)"
proof -
  define c where "c = cos (2 / 3 :: real)"
  have c: "0.7858872 < c" "c < 0.7858873" using cos_two_thirds by (simp_all add: c_def)
  have c': "0.785 < c" "c < 0.786" using c by simp_all
  have lo: "0.23 < 2 * c * c - 1"
  proof -
    have "0.785 * 0.785 < c * c" using c by (intro mult_strict_mono) simp_all
    then show ?thesis by simp
  qed
  have hi: "2 * c * c - 1 < 0.25"
  proof -
    have "c * c < 0.786 * 0.786" using c by (intro mult_strict_mono) simp_all
    then show ?thesis by simp
  qed
  have r0: "c_round 1 = 1" by (simp add: c_round_def)
  have r1: "c_round ((1 - c) * - (3 / 2)) = 0" using c' by (intro c_round_eq) simp_all
  have r2: "c_round c = 1" using c' by (intro c_round_eq) simp_all
  have r3: "c_round ((c - 1) * - (3 / 2)) = 0" using c' by (intro c_round_eq) simp_all
  have r4: "c_round (2 * c * c - 1) = 0" using lo hi by (intro c_round_eq) simp_all
  have r5: "c_round ((2 * c * c - 1 - c) * - (3 / 2)) = 1"
  proof (rule c_round_eq)
    define q where "q = 2 * c * c - 1"
    have q: "0.23 < q" "q < 0.25" using lo hi by (simp_all add: q_def)
    have d: "1 < 3 * (c - q)" "3 * (c - q) < 3" using q c' by simp_all
    have e: "(2 * c * c - 1 - c) * - (3 / 2) = 3 * (c - q) / 2" by (simp add: q_def algebra_simps)
    show "real_of_int 1 - 1 / 2 < (2 * c * c - 1 - c) * - (3 / 2)" unfolding e using d by simp
    show "(2 * c * c - 1 - c) * - (3 / 2) < real_of_int 1 + 1 / 2" unfolding e using d by simp
  qed
  have m: "d_mul exact_arith = (*)" "d_sub exact_arith = (-)" by (simp_all add: exact_arith_def)
  show "df2_float_sample exact_arith 1 0 = (1, 0)"
    unfolding df2_float_sample_def df2_params_1 df2_w_1 m c_def [symmetric]
    using round_int_exact(1) [OF r0] round_int_exact(1) [OF r1] by simp
  show "df2_float_sample exact_arith 1 (Suc 0) = (1, 0)"
    unfolding df2_float_sample_def df2_params_1 df2_w_1 m c_def [symmetric]
    using round_int_exact(1) [OF r2] round_int_exact(1) [OF r3] by simp
  show "df2_float_sample exact_arith 1 (Suc (Suc 0)) = (0, 1)"
    unfolding df2_float_sample_def df2_params_1 df2_w_1 m c_def [symmetric]
    using round_int_exact(1) [OF r4] round_int_exact(1) [OF r5] by simp
qed

lemma df2_wq_1:
  "df2_wq exact_arith 1 0 = 51504" "df2_wq exact_arith 1 (Suc 0) = 65536"
  "df2_wq exact_arith 1 (Suc (Suc 0)) = 51504"
  "df2_wq exact_arith 1 (Suc (Suc (Suc 0))) = 15416"
proof -
  have m: "d_mul exact_arith = (*)" "d_of_int exact_arith = real_of_int" "d_cos exact_arith = cos"
    by (simp_all add: exact_arith_def)
  show a: "df2_wq exact_arith 1 0 = 51504" by (simp add: df2_params_1 m to_fixed_values)
  show b: "df2_wq exact_arith 1 (Suc 0) = 65536" by (simp add: m to_fixed_values)
  have s: "df2_wq exact_arith 1 (Suc (Suc n))
      = fp_mul 103008 (df2_wq exact_arith 1 (Suc n)) - df2_wq exact_arith 1 n" for n
    by (simp only: df2_wq.simps df2_params_1 to_fixed_values)
  show c: "df2_wq exact_arith 1 (Suc (Suc 0)) = 51504"
    unfolding s a b by (simp add: fp_mul_def FP_consts)
  show "df2_wq exact_arith 1 (Suc (Suc (Suc 0))) = 15416"
    unfolding s [of "Suc 0"] b c by (simp add: fp_mul_def FP_consts)
qed

lemma df2_fixed_sample_1:
  "df2_fixed_sample exact_arith 1 0 = (1, 0)" "df2_fixed_sample exact_arith 1 (Suc 0) = (1, 0)"
  "df2_fixed_sample exact_arith 1 (Suc (Suc 0)) = (0, 1)"
proof -
  show "df2_fixed_sample exact_arith 1 0 = (1, 0)"
    unfolding df2_fixed_sample_def df2_params_1 to_fixed_values df2_wq_1
    by (simp add: fixed_to_int_def fp_mul_def FP_consts)
  show "df2_fixed_sample exact_arith 1 (Suc 0) = (1, 0)"
    unfolding df2_fixed_sample_def df2_params_1 to_fixed_values df2_wq_1
    by (simp add: fixed_to_int_def fp_mul_def FP_consts)
  show "df2_fixed_sample exact_arith 1 (Suc (Suc 0)) = (0, 1)"
    unfolding df2_fixed_sample_def df2_params_1 to_fixed_values df2_wq_1
    by (simp add: fixed_to_int_def fp_mul_def FP_consts)
qed

text \<open>With a \<^verbatim>\<open>cos\<close> that returns 1 the oscillator does not move.\<close>

lemma df2_w_flat: "df2_w flat_arith 1 n = 1 \<and> df2_w flat_arith 1 (Suc n) = 1"
proof (induction n)
  case 0
  show ?case by (simp add: flat_arith_def exact_arith_def)
next
  case (Suc n)
  have "df2_w flat_arith 1 (Suc (Suc n)) = 2 * df2_w flat_arith 1 (Suc n) - df2_w flat_arith 1 n"
    unfolding df2_w.simps df2_params_1 by (simp add: flat_arith_def exact_arith_def)
  then show ?case using Suc by simp
qed

lemma df2_wq_flat: "df2_wq flat_arith 1 n = 65536 \<and> df2_wq flat_arith 1 (Suc n) = 65536"
proof (induction n)
  case 0
  have m: "d_mul flat_arith = (*)" "d_of_int flat_arith = real_of_int" "d_cos flat_arith = (\<lambda>x. 1)"
    by (simp_all add: flat_arith_def exact_arith_def)
  show ?case by (simp add: m to_fixed_exact(2) to_fixed_values)
next
  case (Suc n)
  have "df2_wq flat_arith 1 (Suc (Suc n)) = fp_mul 131072 (df2_wq flat_arith 1 (Suc n)) - df2_wq flat_arith 1 n"
    unfolding df2_wq.simps df2_params_1 to_fixed_exact(2) to_fixed_values by (rule refl)
  also have "\<dots> = 65536" using Suc by (simp add: fp_mul_def FP_consts)
  finally show ?case using Suc by simp
qed

lemma df2_samples_flat:
  "df2_float_sample flat_arith 1 n = (1, 0)" "df2_fixed_sample flat_arith 1 n = (1, 0)"
proof -
  have r0: "c_round 1 = 1" "c_round 0 = 0" by (simp_all add: c_round_def)
  have m: "d_mul flat_arith = (*)" "d_sub flat_arith = (-)" by (simp_all add: flat_arith_def exact_arith_def)
  show "df2_float_sample flat_arith 1 n = (1, 0)"
    unfolding df2_float_sample_def df2_params_1 m
    using df2_w_flat [of n] round_int_exact(2) [OF r0(1)] round_int_exact(2) [OF r0(2)] by simp
  show "df2_fixed_sample flat_arith 1 n = (1, 0)"
    unfolding df2_fixed_sample_def df2_params_1 to_fixed_exact(2) to_fixed_values
    using df2_wq_flat [of n] by (simp add: fixed_to_int_def fp_mul_def FP_consts)
qed

lemma first_crossing_2:
  assumes "\<not> crossed (g 0)" "\<not> crossed (g (Suc 0))" "crossed (g (Suc (Suc 0)))"
  shows "first_crossing g 2"
  unfolding first_crossing_iff
proof (intro conjI allI impI)
  fix i :: nat assume "i < 2"
  then have "i = 0 \<or> i = Suc 0" by auto
  then show "\<not> crossed (g i)" using assms(1,2) by auto
next
  show "crossed (g 2)" unfolding numeral_2_eq_2 by (rule assms(3))
qed

lemma first_crossing_df2_1:
  "first_crossing (df2_float_sample exact_arith 1) 2" "first_crossing (df2_fixed_sample exact_arith 1) 2"
  by (rule first_crossing_2; simp add: df2_float_sample_1 df2_fixed_sample_1 crossed_def)+

lemma plot8_samples_2:
  "plot8_samples fb cx cy s 2
     = fb_plot8 (fb_plot8 fb cx cy (fst (s 0)) (snd (s 0))) cx cy (fst (s (Suc 0))) (snd (s (Suc 0)))"
  unfolding numeral_2_eq_2 by (simp add: plot8_samples_Suc)

lemma fb_create_5: "fb_create 5 5 = \<lparr>width = 5, height = 5,
           pixels = [0, 0, 0, 0, 0,  0, 0, 0, 0, 0,  0, 0, 0, 0, 0,  0, 0, 0, 0, 0,  0, 0, 0, 0, 0]\<rparr>"
  by code_simp



lemma fb5_plots:
  "fb_plot8 (fb_create 5 5) 0 0 1 0 = fb5" "fb_plot8 fb5 0 0 1 0 = fb5"
  "fb_plot8 (fb_create 5 5) 0 0 0 1 = fb5"
  by code_simp+

lemma plot8_samples_df2_1:
  "plot8_samples (fb_create 5 5) 0 0 (df2_float_sample exact_arith 1) 2 = fb5"
  "plot8_samples (fb_create 5 5) 0 0 (df2_fixed_sample exact_arith 1) 2 = fb5"
  by (simp_all add: plot8_samples_2 df2_float_sample_1 df2_fixed_sample_1 fb5_plots)

text \<open>
  C1.  For a radius \<open>r > 0\<close> and whatever the arithmetic of doubles, both DF2 sweeps are
  the octant loop over the samples of the recurrence \<open>w[n] = coeff \<cdot> w[n-1] - w[n-2]\<close> with
  \<open>\<omega> = 1 / (1.5 r)\<close>, \<open>coeff = 2 cos \<omega>\<close>, \<open>scale = - 1 / \<omega>\<close>, started at \<open>(r, r cos \<omega>)\<close>, the sample
  being \<open>x = round (w[n-1])\<close>, \<open>y = round ((w[n-1] - w[n-2]) \<cdot> scale)\<close>.  When sample \<open>k\<close> is the
  first with \<open>y > x\<close>, the sweep returns the surface with the samples \<open>0, \<dots>, k - 1\<close> put
  through the octant expander, and the count \<open>8 k\<close> (as a 32-bit \<^verbatim>\<open>int\<close>); when no sample has
  \<open>y > x\<close> the sweep does not return.  One step of the oscillator maps
  \<open>(w[n-2], w[n-1])\<close> to \<open>(w[n-1], w[n])\<close> and uses the multiplication once, on \<open>coeff\<close> and
  \<open>w[n-1]\<close>: it is the same whatever the multiplication does elsewhere.  In Q16.16 the
  coefficients and the initial state are converted by \<^verbatim>\<open>to_fixed\<close>, and the two roundings are
  exact: \<^const>\<open>fixed_to_int\<close> rounds to nearest, and \<^const>\<open>fixed_to_int\<close> of \<^const>\<open>fp_mul\<close>
  rounds the exact product to nearest, as long as nothing overflows.
\<close>

theorem df2_sweeps_follow_recurrence:
  assumes "0 < r"
  shows "circle_df2_float_sym8 ops fb cx cy r
           = octant_loop (df2_float_sample ops r) Suc (plot8_count cx cy) (fb, 0) 0
       \<and> circle_df2_fixed_sym8 ops fb cx cy r
           = octant_loop (df2_fixed_sample ops r) Suc (plot8_count cx cy) (fb, 0) 0
       \<and> (first_crossing (df2_float_sample ops r) k \<longrightarrow>
            circle_df2_float_sym8 ops fb cx cy r
              = Some (plot8_samples fb cx cy (df2_float_sample ops r) k, word_of_int (8 * int k)))
       \<and> (first_crossing (df2_fixed_sample ops r) k \<longrightarrow>
            circle_df2_fixed_sym8 ops fb cx cy r
              = Some (plot8_samples fb cx cy (df2_fixed_sample ops r) k, word_of_int (8 * int k)))
       \<and> ((\<forall>n. \<not> crossed (df2_float_sample ops r n)) \<longrightarrow> circle_df2_float_sym8 ops fb cx cy r = None)
       \<and> ((\<forall>n. \<not> crossed (df2_fixed_sample ops r n)) \<longrightarrow> circle_df2_fixed_sym8 ops fb cx cy r = None)
       \<and> df2_step (d_mul ops) (d_sub ops) (df2_coeff ops r) (df2_w ops r n, df2_w ops r (Suc n))
           = (df2_w ops r (Suc n), df2_w ops r (Suc (Suc n)))
       \<and> df2_step fp_mul (-) (to_fixed ops (df2_coeff ops r)) (df2_wq ops r n, df2_wq ops r (Suc n))
           = (df2_wq ops r (Suc n), df2_wq ops r (Suc (Suc n)))
       \<and> (mul c w1 = mul' c w1 \<longrightarrow> df2_step mul sub c (w0, w1) = df2_step mul' sub c (w0, w1))
       \<and> (sint f + 2 ^ 15 < 2 ^ 31 \<longrightarrow>
            fixed_to_int f = \<lfloor>real_of_int (sint f) / 2 ^ 16 + 1 / 2\<rfloor>)
       \<and> (- (2 ^ 31) \<le> (sint d * sint s) div 65536 \<and> (sint d * sint s) div 65536 + 32768 < 2 ^ 31 \<longrightarrow>
            fixed_to_int (fp_mul d s)
              = \<lfloor>real_of_int (sint d) / 2 ^ 16 * (real_of_int (sint s) / 2 ^ 16) + 1 / 2\<rfloor>)"
proof -
  have a: "circle_df2_float_sym8 ops fb cx cy r
           = octant_loop (df2_float_sample ops r) Suc (plot8_count cx cy) (fb, 0) 0"
    using assms by (rule circle_df2_float_sym8_index)
  have b: "circle_df2_fixed_sym8 ops fb cx cy r
           = octant_loop (df2_fixed_sample ops r) Suc (plot8_count cx cy) (fb, 0) 0"
    using assms by (rule circle_df2_fixed_sym8_index)
  have c: "first_crossing g k \<longrightarrow>
      octant_loop g Suc (plot8_count cx cy) (fb, 0) 0
        = Some (plot8_samples fb cx cy g k, word_of_int (8 * int k))" for g
  proof
    assume h: "first_crossing g k"
    show "octant_loop g Suc (plot8_count cx cy) (fb, 0) 0
        = Some (plot8_samples fb cx cy g k, word_of_int (8 * int k))"
      using octant_index_Some [OF h, of "plot8_count cx cy" "(fb, 0)"]
      by (simp only: octant_run_plot8_samples)
  qed
  have n: "(\<forall>n. \<not> crossed (g n)) \<longrightarrow> octant_loop g Suc (plot8_count cx cy) (fb, 0) 0 = None" for g
  proof
    assume h: "\<forall>n. \<not> crossed (g n)"
    show "octant_loop g Suc (plot8_count cx cy) (fb, 0) 0 = None" by (rule octant_index_None [OF h])
  qed
  have s1: "df2_step (d_mul ops) (d_sub ops) (df2_coeff ops r) (df2_w ops r n, df2_w ops r (Suc n))
           = (df2_w ops r (Suc n), df2_w ops r (Suc (Suc n)))"
    by (simp add: df2_step_def)
  have s2: "df2_step fp_mul (-) (to_fixed ops (df2_coeff ops r)) (df2_wq ops r n, df2_wq ops r (Suc n))
           = (df2_wq ops r (Suc n), df2_wq ops r (Suc (Suc n)))"
    by (simp add: df2_step_def)
  have m: "mul c w1 = mul' c w1 \<longrightarrow> df2_step mul sub c (w0, w1) = df2_step mul' sub c (w0, w1)"
    by (simp add: df2_step_def)
  have e: "sint f + 2 ^ 15 < 2 ^ 31 \<longrightarrow> fixed_to_int f = \<lfloor>real_of_int (sint f) / 2 ^ 16 + 1 / 2\<rfloor>"
  proof
    assume h: "sint f + 2 ^ 15 < 2 ^ 31"
    have "real_of_int (sint f) / 2 ^ 16 + 1 / 2 = real_of_int (sint f + 32768) / real_of_int 65536"
      by (simp add: field_simps)
    then have "\<lfloor>real_of_int (sint f) / 2 ^ 16 + 1 / 2\<rfloor> = (sint f + 32768) div 65536"
      by (simp only: floor_divide_of_int_eq)
    then show "fixed_to_int f = \<lfloor>real_of_int (sint f) / 2 ^ 16 + 1 / 2\<rfloor>"
      using h by (simp add: fixed_to_int_div)
  qed
  have g: "- (2 ^ 31) \<le> (sint d * sint s) div 65536 \<and> (sint d * sint s) div 65536 + 32768 < 2 ^ 31 \<longrightarrow>
            fixed_to_int (fp_mul d s)
              = \<lfloor>real_of_int (sint d) / 2 ^ 16 * (real_of_int (sint s) / 2 ^ 16) + 1 / 2\<rfloor>"
  proof
    assume h: "- (2 ^ 31) \<le> (sint d * sint s) div 65536 \<and> (sint d * sint s) div 65536 + 32768 < 2 ^ 31"
    show "fixed_to_int (fp_mul d s)
              = \<lfloor>real_of_int (sint d) / 2 ^ 16 * (real_of_int (sint s) / 2 ^ 16) + 1 / 2\<rfloor>"
      using h by (intro fixed_sample_round) simp_all
  qed
  show ?thesis
    unfolding a b by (intro conjI refl c n s1 s2 m e g)
qed

theorem df2_sweeps_follow_recurrence_witness:
  "circle_df2_float_sym8 exact_arith (fb_create 5 5) 0 0 1 = Some (fb5, 16)
   \<and> circle_df2_fixed_sym8 exact_arith (fb_create 5 5) 0 0 1 = Some (fb5, 16)
   \<and> circle_df2_float_sym8 flat_arith (fb_create 5 5) 0 0 1 = None
   \<and> circle_df2_fixed_sym8 flat_arith (fb_create 5 5) 0 0 1 = None
   \<and> df2_step fp_mul (-) 103008 (51504, 65536) = (65536, 51504)
   \<and> df2_step (\<lambda>a b. if a = 103008 \<and> b = 65536 then 103008 else 0) (-) 103008 (51504, 65536)
       = (65536, 51504 :: fixed_t)
   \<and> fixed_to_int 51504 = 1
   \<and> fixed_to_int (fp_mul 14032 (- 98304)) = 0"
proof -
  have r: "0 < (1::int)" by simp
  note t = df2_sweeps_follow_recurrence [OF r, where ops = exact_arith and fb = "fb_create 5 5"
      and cx = 0 and cy = 0 and k = 2 and n = 1 and f = 51504 and d = 14032 and s = "- 98304"
      and mul = fp_mul and mul' = "\<lambda>a b. if a = 103008 \<and> b = 65536 then 103008 else 0"
      and c = 103008 and ?w1.0 = 65536 and ?w0.0 = 51504 and sub = "(-)"]
  note u = df2_sweeps_follow_recurrence [OF r, where ops = flat_arith and fb = "fb_create 5 5"
      and cx = 0 and cy = 0]
  have a: "circle_df2_float_sym8 exact_arith (fb_create 5 5) 0 0 1 = Some (fb5, 16)"
    using t [THEN conjunct2, THEN conjunct2, THEN conjunct1, rule_format, OF first_crossing_df2_1(1)]
    by (simp add: plot8_samples_df2_1)
  have b: "circle_df2_fixed_sym8 exact_arith (fb_create 5 5) 0 0 1 = Some (fb5, 16)"
    using t [THEN conjunct2, THEN conjunct2, THEN conjunct2, THEN conjunct1, rule_format,
        OF first_crossing_df2_1(2)]
    by (simp add: plot8_samples_df2_1)
  have nf: "\<forall>n. \<not> crossed (df2_float_sample flat_arith 1 n)"
    by (simp add: df2_samples_flat crossed_def)
  have nq: "\<forall>n. \<not> crossed (df2_fixed_sample flat_arith 1 n)"
    by (simp add: df2_samples_flat crossed_def)
  have c: "circle_df2_float_sym8 flat_arith (fb_create 5 5) 0 0 1 = None"
    using u [THEN conjunct2, THEN conjunct2, THEN conjunct2, THEN conjunct2, THEN conjunct1,
        THEN mp, OF nf] .
  have d: "circle_df2_fixed_sym8 flat_arith (fb_create 5 5) 0 0 1 = None"
    using u [THEN conjunct2, THEN conjunct2, THEN conjunct2, THEN conjunct2, THEN conjunct2,
        THEN conjunct1, THEN mp, OF nq] .
  have p: "fp_mul 103008 65536 = (103008 :: fixed_t)" by (simp add: fp_mul_def FP_consts)
  have e: "df2_step fp_mul (-) 103008 (51504, 65536) = (65536, 51504 :: fixed_t)"
    by (simp add: df2_step_def p)
  have f: "df2_step (\<lambda>a b. if a = 103008 \<and> b = 65536 then 103008 else 0) (-) 103008 (51504, 65536)
       = (65536, 51504 :: fixed_t)"
    using t [THEN conjunct2, THEN conjunct2, THEN conjunct2, THEN conjunct2, THEN conjunct2,
        THEN conjunct2, THEN conjunct2, THEN conjunct2, THEN conjunct1] e
    by (simp add: p)
  have g: "fixed_to_int 51504 = 1" by (simp add: fixed_to_int_def FP_consts)
  have h: "fixed_to_int (fp_mul 14032 (- 98304)) = 0" by (simp add: fixed_to_int_def fp_mul_def FP_consts)
  show ?thesis using a b c d e f g h by simp
qed

section \<open>What the sweeps return\<close>





















end
